theory Spec2Isabelle
  imports Main "HOL-Library.Word"
begin

unbundle bit_operations_syntax

section \<open>Strings\<close>

text \<open>
  A Go string is a sequence of bytes, and so is a \<^typ>\<open>string\<close>.  The router uses three
  functions of the standard package \<^verbatim>\<open>strings\<close>, always with a one-byte cut set,
  separator or prefix: \<^verbatim>\<open>Trim(s, "/")\<close>, \<^verbatim>\<open>Split(s, "/")\<close> and
  \<^verbatim>\<open>HasPrefix(s, ":")\<close>.
\<close>

type_synonym byte = "8 word"

definition strings_Trim :: "string \<Rightarrow> char \<Rightarrow> string" where
  "strings_Trim s c = rev (dropWhile (\<lambda>x. x = c) (rev (dropWhile (\<lambda>x. x = c) s)))"

fun strings_Split :: "string \<Rightarrow> char \<Rightarrow> string list" where
  "strings_Split [] sep = [[]]"
| "strings_Split (x # xs) sep =
     (if x = sep then [] # strings_Split xs sep
      else (case strings_Split xs sep of
              [] \<Rightarrow> [[x]]
            | y # ys \<Rightarrow> (x # y) # ys))"

definition strings_HasPrefix :: "string \<Rightarrow> char \<Rightarrow> bool" where
  "strings_HasPrefix s c = (case s of [] \<Rightarrow> False | x # _ \<Rightarrow> x = c)"

section \<open>The router\<close>

record Segment =
  IsParam :: bool
  Name :: string
  Value :: string

record RoutePattern =
  Segments :: "Segment list"

text \<open>A handler is a Go function value, which may be \<^verbatim>\<open>nil\<close>: \<^term>\<open>None\<close>.\<close>

record 'h Route =
  Method :: string
  Path :: string
  Handler :: "'h option"
  Pattern :: RoutePattern

record 'h Router =
  routes :: "'h Route list"

definition NewRouter :: "'h Router" where
  "NewRouter = \<lparr>routes = []\<rparr>"

definition compileSegment :: "string \<Rightarrow> Segment" where
  "compileSegment segment =
     (if strings_HasPrefix segment (CHR '':'')
      then \<lparr>IsParam = True, Name = tl segment, Value = []\<rparr>
      else \<lparr>IsParam = False, Name = [], Value = segment\<rparr>)"

definition compilePattern :: "string \<Rightarrow> RoutePattern" where
  "compilePattern path =
     \<lparr>Segments = map compileSegment (strings_Split (strings_Trim path (CHR ''/'')) (CHR ''/''))\<rparr>"

definition Add :: "'h Router \<Rightarrow> string \<Rightarrow> string \<Rightarrow> 'h option \<Rightarrow> 'h Router" where
  "Add r method path handler =
     r\<lparr>routes := routes r @
        [\<lparr>Method = method, Path = path, Handler = handler, Pattern = compilePattern path\<rparr>]\<rparr>"

text \<open>
  The loop of \<^verbatim>\<open>matchPattern\<close> over the pattern's segments, with the map of
  parameters built so far.  It runs only on lists of one length; the third equation is
  the index out of range that the length check of \<^verbatim>\<open>matchPattern\<close> excludes.
\<close>

fun matchSegments ::
  "Segment list \<Rightarrow> string list \<Rightarrow> (string \<rightharpoonup> string) \<Rightarrow> (string \<rightharpoonup> string) option \<times> bool"
where
  "matchSegments [] pathSegments params = (Some params, True)"
| "matchSegments (segment # segs) (p # ps) params =
     (if IsParam segment then matchSegments segs ps (params(Name segment \<mapsto> p))
      else if Value segment \<noteq> p then (None, False)
      else matchSegments segs ps params)"
| "matchSegments (segment # segs) [] params = (None, False)"

definition matchPattern ::
  "RoutePattern \<Rightarrow> string list \<Rightarrow> (string \<rightharpoonup> string) option \<times> bool"
where
  "matchPattern pattern pathSegments =
     (if length (Segments pattern) \<noteq> length pathSegments then (None, False)
      else matchSegments (Segments pattern) pathSegments Map.empty)"

fun matchRoutes ::
  "'h Route list \<Rightarrow> string \<Rightarrow> string list \<Rightarrow> 'h option \<times> (string \<rightharpoonup> string) option"
where
  "matchRoutes [] method pathSegments = (None, None)"
| "matchRoutes (route # rs) method pathSegments =
     (if Method route \<noteq> method then matchRoutes rs method pathSegments
      else (case matchPattern (Pattern route) pathSegments of
              (params, matches) \<Rightarrow>
                if matches then (Handler route, params)
                else matchRoutes rs method pathSegments))"

definition Match ::
  "'h Router \<Rightarrow> string \<Rightarrow> string \<Rightarrow> 'h option \<times> (string \<rightharpoonup> string) option"
where
  "Match r method path =
     matchRoutes (routes r) method (strings_Split (strings_Trim path (CHR ''/'')) (CHR ''/''))"

abbreviation pathSegmentsOf :: "string \<Rightarrow> string list" where
  "pathSegmentsOf path \<equiv> strings_Split (strings_Trim path (CHR ''/'')) (CHR ''/'')"

text \<open>
  A router is built by a sequence of calls \<^verbatim>\<open>Add(method, path, handler)\<close>;
  \<^term>\<open>registration_route\<close> is the route that one such call appends.
\<close>

definition addAll :: "'h Router \<Rightarrow> (string \<times> string \<times> 'h option) list \<Rightarrow> 'h Router" where
  "addAll r regs = foldl (\<lambda>r (method, path, handler). Add r method path handler) r regs"

definition registration_route :: "string \<times> string \<times> 'h option \<Rightarrow> 'h Route" where
  "registration_route reg =
     \<lparr>Method = fst reg, Path = fst (snd reg), Handler = snd (snd reg),
      Pattern = compilePattern (fst (snd reg))\<rparr>"

text \<open>
  The specification's condition for a route to match a request: the methods are equal,
  the segment counts are equal, and every literal segment equals the path segment at its
  position.
\<close>

definition route_accepts :: "'h Route \<Rightarrow> string \<Rightarrow> string list \<Rightarrow> bool" where
  "route_accepts route method pathSegments \<longleftrightarrow>
     Method route = method \<and>
     length (Segments (Pattern route)) = length pathSegments \<and>
     (\<forall>i < length pathSegments.
        \<not> IsParam (Segments (Pattern route) ! i) \<longrightarrow>
        Value (Segments (Pattern route) ! i) = pathSegments ! i)"

text \<open>\<^verbatim>\<open>strings.Join\<close> with a one-byte separator, the inverse of \<^verbatim>\<open>strings.Split\<close>.\<close>

fun strings_Join :: "string list \<Rightarrow> char \<Rightarrow> string" where
  "strings_Join [] sep = []"
| "strings_Join [x] sep = x"
| "strings_Join (x # y # ys) sep = x @ sep # strings_Join (y # ys) sep"

text \<open>The text of the template segment that a compiled segment stands for.\<close>

definition segmentText :: "Segment \<Rightarrow> string" where
  "segmentText seg = (if IsParam seg then CHR '':'' # Name seg else Value seg)"

section \<open>The WebSocket layer\<close>

subsection \<open>SHA-1 and Base64\<close>

text \<open>
  \<^verbatim>\<open>calculateAcceptKey\<close> calls Go's \<^verbatim>\<open>crypto/sha1\<close> and
  \<^verbatim>\<open>encoding/base64\<close>.  Both implement public standards, modelled here: SHA-1 as in
  FIPS 180-4 (the message is padded to a multiple of 64 bytes, each block runs 80 rounds
  over a schedule of 32-bit words) and Base64 as in RFC 4648 with padding.
\<close>

type_synonym uint32 = "32 word"

definition bytes_of :: "string \<Rightarrow> byte list" where
  "bytes_of s = map (\<lambda>c. of_nat (of_char c)) s"

definition be32 :: "byte \<Rightarrow> byte \<Rightarrow> byte \<Rightarrow> byte \<Rightarrow> uint32" where
  "be32 a b c d =
     push_bit 24 (ucast a) OR push_bit 16 (ucast b) OR push_bit 8 (ucast c) OR ucast d"

definition putUint32 :: "uint32 \<Rightarrow> byte list" where
  "putUint32 x = [ucast (drop_bit 24 x), ucast (drop_bit 16 x), ucast (drop_bit 8 x), ucast x]"

definition putUint64 :: "64 word \<Rightarrow> byte list" where
  "putUint64 x =
     [ucast (drop_bit 56 x), ucast (drop_bit 48 x), ucast (drop_bit 40 x), ucast (drop_bit 32 x),
      ucast (drop_bit 24 x), ucast (drop_bit 16 x), ucast (drop_bit 8 x), ucast x]"

definition rotl :: "nat \<Rightarrow> uint32 \<Rightarrow> uint32" where
  "rotl n x = push_bit n x OR drop_bit (32 - n) x"

definition sha1_pad :: "byte list \<Rightarrow> byte list" where
  "sha1_pad msg =
     msg @ [0x80] @ replicate ((119 - length msg mod 64) mod 64) 0 @
     putUint64 (of_nat (8 * length msg))"

fun words_of :: "byte list \<Rightarrow> uint32 list" where
  "words_of (a # b # c # d # rest) = be32 a b c d # words_of rest"
| "words_of _ = []"

definition sha1_f :: "nat \<Rightarrow> uint32 \<Rightarrow> uint32 \<Rightarrow> uint32 \<Rightarrow> uint32" where
  "sha1_f t b c d =
     (if t < 20 then (b AND c) OR (NOT b AND d)
      else if t < 40 then b XOR c XOR d
      else if t < 60 then (b AND c) OR (b AND d) OR (c AND d)
      else b XOR c XOR d)"

definition sha1_k :: "nat \<Rightarrow> uint32" where
  "sha1_k t =
     (if t < 20 then 0x5A827999 else if t < 40 then 0x6ED9EBA1
      else if t < 60 then 0x8F1BBCDC else 0xCA62C1D6)"

type_synonym sha1_state = "uint32 \<times> uint32 \<times> uint32 \<times> uint32 \<times> uint32"

text \<open>
  \<^term>\<open>sha1_rounds n t w s\<close> runs \<open>n\<close> rounds from round \<open>t\<close>; \<open>w\<close> is the window
  of the sixteen schedule words from \<open>t\<close> on.
\<close>

fun sha1_rounds :: "nat \<Rightarrow> nat \<Rightarrow> uint32 list \<Rightarrow> sha1_state \<Rightarrow> sha1_state" where
  "sha1_rounds 0 t w s = s"
| "sha1_rounds (Suc n) t w (a, b, c, d, e) =
     sha1_rounds n (Suc t)
       (tl w @ [rotl 1 (w ! 13 XOR w ! 8 XOR w ! 2 XOR w ! 0)])
       (rotl 5 a + sha1_f t b c d + e + hd w + sha1_k t, a, rotl 30 b, c, d)"

definition sha1_block :: "sha1_state \<Rightarrow> byte list \<Rightarrow> sha1_state" where
  "sha1_block s blk =
     (case s of (h0, h1, h2, h3, h4) \<Rightarrow>
        (case sha1_rounds 80 0 (words_of blk) s of (a, b, c, d, e) \<Rightarrow>
           (h0 + a, h1 + b, h2 + c, h3 + d, h4 + e)))"

fun sha1_blocks :: "nat \<Rightarrow> sha1_state \<Rightarrow> byte list \<Rightarrow> sha1_state" where
  "sha1_blocks 0 s bs = s"
| "sha1_blocks (Suc n) s bs = sha1_blocks n (sha1_block s (take 64 bs)) (drop 64 bs)"

definition sha1_init :: sha1_state where
  "sha1_init = (0x67452301, 0xEFCDAB89, 0x98BADCFE, 0x10325476, 0xC3D2E1F0)"

definition sha1_digest :: "sha1_state \<Rightarrow> byte list" where
  "sha1_digest s =
     (case s of (h0, h1, h2, h3, h4) \<Rightarrow>
        putUint32 h0 @ putUint32 h1 @ putUint32 h2 @ putUint32 h3 @ putUint32 h4)"

definition sha1_Sum :: "byte list \<Rightarrow> byte list" where
  "sha1_Sum msg =
     sha1_digest (sha1_blocks (length (sha1_pad msg) div 64) sha1_init (sha1_pad msg))"

definition encodeStd :: string where
  "encodeStd = ''ABCDEFGHIJKLMNOPQRSTUVWXYZabcdefghijklmnopqrstuvwxyz0123456789+/''"

definition encodeURL :: string where
  "encodeURL = ''ABCDEFGHIJKLMNOPQRSTUVWXYZabcdefghijklmnopqrstuvwxyz0123456789-_''"

definition sextets :: "nat \<Rightarrow> nat list" where
  "sextets val = [val div 262144 mod 64, val div 4096 mod 64, val div 64 mod 64, val mod 64]"

fun EncodeToString :: "string \<Rightarrow> byte list \<Rightarrow> string" where
  "EncodeToString enc (a # b # c # rest) =
     map (\<lambda>i. enc ! i) (sextets (unat a * 65536 + unat b * 256 + unat c)) @
     EncodeToString enc rest"
| "EncodeToString enc [a, b] =
     map (\<lambda>i. enc ! i) (take 3 (sextets (unat a * 65536 + unat b * 256))) @ ''=''"
| "EncodeToString enc [a] =
     map (\<lambda>i. enc ! i) (take 2 (sextets (unat a * 65536))) @ ''==''"
| "EncodeToString enc [] = []"

subsection \<open>The handshake key\<close>

definition websocketMagicString :: string where
  "websocketMagicString = ''258EAFA5-E914-47DA-95CA-C5AB0DC85B11''"

definition calculateAcceptKey :: "string \<Rightarrow> string" where
  "calculateAcceptKey key =
     EncodeToString encodeStd (sha1_Sum (bytes_of (key @ websocketMagicString)))"

text \<open>
  The bytes of the handshake key of RFC 6455, section 1.3, followed by the fixed GUID.
\<close>

definition vector_message :: "byte list" where
  "vector_message =
     [100, 71, 104, 108, 73, 72, 78, 104, 98, 88, 66, 115, 90, 83, 66, 117, 98,
      50, 53, 106, 90, 81, 61, 61, 50, 53, 56, 69, 65, 70, 65, 53, 45, 69, 57,
      49, 52, 45, 52, 55, 68, 65, 45, 57, 53, 67, 65, 45, 67, 53, 65, 66, 48,
      68, 67, 56, 53, 66, 49, 49]"

subsection \<open>Writing a frame\<close>

text \<open>
  The connection is a \<^verbatim>\<open>net.Conn\<close>: a write either sends all the bytes or fails.  Only
  what \<^verbatim>\<open>WriteMessage\<close> uses of it is modelled.
\<close>

datatype net_error = WriteFailed

record Conn =
  sent :: "byte list"
  broken :: bool

record WebSocket =
  conn :: Conn

definition conn_Write :: "Conn \<Rightarrow> byte list \<Rightarrow> Conn \<times> net_error option" where
  "conn_Write c bs =
     (if broken c then (c, Some WriteFailed) else (c\<lparr>sent := sent c @ bs\<rparr>, None))"

text \<open>
  The frame that \<^verbatim>\<open>WriteMessage\<close> builds.  \<^verbatim>\<open>len(data)\<close> is a Go \<^verbatim>\<open>int\<close>, and the
  conversion \<^verbatim>\<open>byte(...)\<close> keeps its low eight bits.
\<close>

definition messageFrame :: "byte list \<Rightarrow> byte list" where
  "messageFrame data =
     [0x81] @
     (if length data < 126 then [of_nat (length data)]
      else [126, of_nat (drop_bit 8 (length data)), of_nat (length data AND 0xFF)]) @
     data"

definition WriteMessage :: "WebSocket \<Rightarrow> byte list \<Rightarrow> WebSocket \<times> net_error option" where
  "WriteMessage ws data =
     (case conn_Write (conn ws) (messageFrame data) of
        (c, err) \<Rightarrow> (ws\<lparr>conn := c\<rparr>, err))"

section \<open>The net/http types the framework works on\<close>

text \<open>
  \<^verbatim>\<open>http.Header\<close> maps a canonical key to its values.  \<^verbatim>\<open>Set\<close>, \<^verbatim>\<open>Add\<close> and
  \<^verbatim>\<open>Get\<close> canonicalise the key first: a key of token characters gets an upper-case
  letter at its start and after every hyphen and lower-case letters elsewhere; any other
  key is left as it is.
\<close>

type_synonym header = "string \<rightharpoonup> string list"

definition isUpper :: "char \<Rightarrow> bool" where
  "isUpper c = (65 \<le> (of_char c :: nat) \<and> (of_char c :: nat) \<le> 90)"

definition isLower :: "char \<Rightarrow> bool" where
  "isLower c = (97 \<le> (of_char c :: nat) \<and> (of_char c :: nat) \<le> 122)"

definition isDigit :: "char \<Rightarrow> bool" where
  "isDigit c = (48 \<le> (of_char c :: nat) \<and> (of_char c :: nat) \<le> 57)"

definition toUpper :: "char \<Rightarrow> char" where
  "toUpper c = (if isLower c then char_of ((of_char c :: nat) - 32) else c)"

definition toLower :: "char \<Rightarrow> char" where
  "toLower c = (if isUpper c then char_of ((of_char c :: nat) + 32) else c)"

definition isTokenChar :: "char \<Rightarrow> bool" where
  "isTokenChar c = (isUpper c \<or> isLower c \<or> isDigit c \<or> c \<in> set ''!#$%&*+-.^_`|~'' \<or> c = CHR 39)"

fun canonicalLetters :: "bool \<Rightarrow> string \<Rightarrow> string" where
  "canonicalLetters upper [] = []"
| "canonicalLetters upper (c # cs) =
     (if upper then toUpper c else toLower c) # canonicalLetters (c = CHR ''-'') cs"

definition CanonicalHeaderKey :: "string \<Rightarrow> string" where
  "CanonicalHeaderKey s = (if list_all isTokenChar s then canonicalLetters True s else s)"

definition Header_Set :: "header \<Rightarrow> string \<Rightarrow> string \<Rightarrow> header" where
  "Header_Set h key v = h(CanonicalHeaderKey key \<mapsto> [v])"

definition Header_Add :: "header \<Rightarrow> string \<Rightarrow> string \<Rightarrow> header" where
  "Header_Add h key v =
     h(CanonicalHeaderKey key \<mapsto>
         (case h (CanonicalHeaderKey key) of None \<Rightarrow> [v] | Some vs \<Rightarrow> vs @ [v]))"

definition Header_Get :: "header \<Rightarrow> string \<Rightarrow> string" where
  "Header_Get h key =
     (case h (CanonicalHeaderKey key) of None \<Rightarrow> [] | Some [] \<Rightarrow> [] | Some (v # _) \<Rightarrow> v)"

text \<open>\<^verbatim>\<open>strconv.Itoa\<close>: the decimal digits of an integer.\<close>

function digits :: "nat \<Rightarrow> string" where
  "digits n =
     (if n < 10 then [char_of (48 + n)]
      else digits (n div 10) @ [char_of (48 + n mod 10)])"
  by pat_completeness auto
termination
  by (relation "measure (\<lambda>n. n)") auto

definition Itoa :: "int \<Rightarrow> string" where
  "Itoa i = (if i < 0 then ''-'' @ digits (nat (- i)) else digits (nat i))"

text \<open>
  A request as the server hands it to the handler.  \<^term>\<open>ContentLength\<close> is \<open>-1\<close> when
  the length of the body is not known and \<open>0\<close> when there is no body; \<^term>\<open>Cookies\<close>
  are the cookies of the request in their order.
\<close>

record Request =
  Method_req :: string
  URL_Path :: string
  URL_RawQuery :: string
  Header_req :: header
  ContentLength :: int
  Body :: "byte list"
  RemoteAddr :: string
  Cookies :: "(string \<times> string) list"

text \<open>
  A response writer.  The header map can be changed at any time, but the status line and
  the headers go out once, with the first \<^verbatim>\<open>WriteHeader\<close> of a final status or the
  first \<^verbatim>\<open>Write\<close>; \<^term>\<open>sentHeader\<close> is the header map as it was then.  As in
  \<^verbatim>\<open>net/http\<close>, a \<^verbatim>\<open>WriteHeader\<close> after that is ignored, one with a code outside
  100 to 999 panics (\<^term>\<open>None\<close>), and one with an informational code other than 101
  sends an interim response and leaves the final header open.
\<close>

record ResponseWriter =
  Header_w :: header
  wroteHeader :: bool
  status :: int
  sentHeader :: header
  informational :: "int list"
  body :: "byte list"

definition newResponseWriter :: ResponseWriter where
  "newResponseWriter =
     \<lparr>Header_w = Map.empty, wroteHeader = False, status = 0, sentHeader = Map.empty,
      informational = [], body = []\<rparr>"

definition WriteHeader :: "ResponseWriter \<Rightarrow> int \<Rightarrow> ResponseWriter option" where
  "WriteHeader w code =
     (if wroteHeader w then Some w
      else if code < 100 \<or> 999 < code then None
      else if code \<le> 199 \<and> code \<noteq> 101 then Some (w\<lparr>informational := informational w @ [code]\<rparr>)
      else Some (w\<lparr>wroteHeader := True, status := code, sentHeader := Header_w w\<rparr>))"

text \<open>
  The errors that the calls of the framework return.  \<^term>\<open>ErrBodyNotAllowed\<close> is the
  error of \<^verbatim>\<open>net/http\<close> for a write under a status that has no body.
\<close>

datatype go_error = EncodeError | DecodeError | TemplateError | UpgradeError | ErrBodyNotAllowed

definition bodyAllowedForStatus :: "int \<Rightarrow> bool" where
  "bodyAllowedForStatus s \<longleftrightarrow> \<not> (100 \<le> s \<and> s \<le> 199) \<and> s \<noteq> 204 \<and> s \<noteq> 304"

text \<open>
  \<^verbatim>\<open>Write\<close> first sends the header with the status 200 if no header has been sent.
  Then a write of no bytes does nothing, a write under a status that allows no body
  (informational, 204, 304) is refused with \<^term>\<open>ErrBodyNotAllowed\<close>, and any other
  write is accepted: \<^term>\<open>body\<close> is what the writer has accepted.
\<close>

definition Write :: "ResponseWriter \<Rightarrow> byte list \<Rightarrow> ResponseWriter \<times> go_error option" where
  "Write w bs =
     (let w' = (if wroteHeader w then w
                else w\<lparr>wroteHeader := True, status := 200, sentHeader := Header_w w\<rparr>)
      in if bs = [] then (w', None)
         else if \<not> bodyAllowedForStatus (status w') then (w', Some ErrBodyNotAllowed)
         else (w'\<lparr>body := body w' @ bs\<rparr>, None))"

definition Request_Cookie :: "Request \<Rightarrow> string \<Rightarrow> string option" where
  "Request_Cookie r name = map_of (Cookies r) name"

section \<open>Sessions\<close>

text \<open>
  A session value is a Go \<^verbatim>\<open>interface{}\<close>: \<^term>\<open>None\<close> is \<^verbatim>\<open>nil\<close>.  A map entry
  can hold \<^verbatim>\<open>nil\<close>, so the bag maps a key to an optional value.
\<close>

record 'v Session =
  id_session :: string
  data :: "string \<rightharpoonup> 'v option"
  maxAge :: int

text \<open>
  The session table holds pointers.  The sessions live in a store, a pointer is an index
  into it, and all sessions are allocated by \<^verbatim>\<open>GetSession\<close>.
\<close>

type_synonym 'v store = "'v Session list"

record SessionManager =
  sessions :: "string \<rightharpoonup> nat"
  maxAge_sm :: int

definition NewSessionManager :: SessionManager where
  "NewSessionManager = \<lparr>sessions = Map.empty, maxAge_sm = 24 * 3600 * 1000000000\<rparr>"



definition Session_Delete :: "'v Session \<Rightarrow> string \<Rightarrow> 'v Session" where
  "Session_Delete s key = s\<lparr>data := (data s)(key := None)\<rparr>"

definition Session_Clear :: "'v Session \<Rightarrow> 'v Session" where
  "Session_Clear s = s\<lparr>data := Map.empty\<rparr>"

definition Session_Has :: "'v Session \<Rightarrow> string \<Rightarrow> bool" where
  "Session_Has s key = (data s key \<noteq> None)"



text \<open>
  \<^verbatim>\<open>generateSessionID\<close> encodes 32 bytes of \<^verbatim>\<open>crypto/rand\<close>; the bytes are an input
  of the model.
\<close>

definition generateSessionID :: "byte list \<Rightarrow> string" where
  "generateSessionID random = EncodeToString encodeURL random"

record Cookie =
  Name_c :: string
  Value_c :: string
  Path_c :: string
  MaxAge_c :: int
  HttpOnly :: bool
  Secure :: bool
  SameSiteLax :: bool

text \<open>
  \<^verbatim>\<open>http.SetCookie\<close> adds a \<^verbatim>\<open>Set-Cookie\<close> header whose value is the cookie's
  serialisation, here for the attributes that the session cookie has.
\<close>

definition cookieString :: "Cookie \<Rightarrow> string" where
  "cookieString c =
     Name_c c @ ''='' @ Value_c c @ ''; Path='' @ Path_c c @
     (if 0 < MaxAge_c c then ''; Max-Age='' @ Itoa (MaxAge_c c) else []) @
     (if HttpOnly c then ''; HttpOnly'' else []) @
     (if Secure c then ''; Secure'' else []) @
     (if SameSiteLax c then ''; SameSite=Lax'' else [])"

definition SetCookie :: "ResponseWriter \<Rightarrow> Cookie \<Rightarrow> ResponseWriter" where
  "SetCookie w c = w\<lparr>Header_w := Header_Add (Header_w w) ''Set-Cookie'' (cookieString c)\<rparr>"

definition setSessionCookie :: "SessionManager \<Rightarrow> ResponseWriter \<Rightarrow> string \<Rightarrow> ResponseWriter" where
  "setSessionCookie sm w sessionID =
     SetCookie w
       \<lparr>Name_c = ''session_id'', Value_c = sessionID, Path_c = ''/'',
        MaxAge_c = maxAge_sm sm div 1000000000, HttpOnly = True, Secure = False,
        SameSiteLax = True\<rparr>"

text \<open>
  \<^verbatim>\<open>GetSession\<close> returns the pointer to the session, with the session manager, the
  store and the response writer as it leaves them.
\<close>

definition GetSession ::
  "SessionManager \<Rightarrow> 'v store \<Rightarrow> byte list \<Rightarrow> Request \<Rightarrow> ResponseWriter \<Rightarrow>
     nat \<times> SessionManager \<times> 'v store \<times> ResponseWriter"
where
  "GetSession sm st random r w =
     (let fresh = (case Request_Cookie r ''session_id'' of None \<Rightarrow> True | Some v \<Rightarrow> v = []);
          sessionID = (if fresh then generateSessionID random
                       else the (Request_Cookie r ''session_id''));
          w' = (if fresh then setSessionCookie sm w sessionID else w)
      in case sessions sm sessionID of
           Some p \<Rightarrow> (p, sm, st, w')
         | None \<Rightarrow>
             (length st,
              sm\<lparr>sessions := (sessions sm)(sessionID \<mapsto> length st)\<rparr>,
              st @ [\<lparr>id_session = sessionID, data = Map.empty, maxAge = maxAge_sm sm\<rparr>],
              w'))"



section \<open>The request context\<close>

text \<open>
  A call either returns or panics; both leave a state behind.
\<close>

datatype 'a outcome = Returns 'a | Panics 'a

text \<open>
  An argument of type \<^verbatim>\<open>interface{}\<close>: a \<^verbatim>\<open>map[string]string\<close> literal, as the
  framework passes for its own error bodies, or any other value.
\<close>

datatype 'v anyval = StringMap "(string \<times> string) list" | Opaque 'v

datatype hijack_result = NotHijacker | HijackFailed | Hijacked bool

text \<open>
  What the framework calls outside its own code: \<^verbatim>\<open>encoding/json\<close> (a map of strings
  always encodes, another value may not; decoding reads the body and stores into a
  pointer), the URL and form parsers, the template engines, \<^verbatim>\<open>http.ServeFile\<close>,
  \<^verbatim>\<open>http.Redirect\<close>, the file system and the connection's hijacker (\<open>Hijacked ok\<close>:
  the connection was taken over, and \<open>ok\<close> tells whether the handshake could be written).
\<close>

record 'v Env =
  marshalMap :: "(string \<times> string) list \<Rightarrow> byte list"
  marshalOpaque :: "'v \<Rightarrow> byte list option"
  unmarshal :: "byte list \<Rightarrow> 'v \<Rightarrow> 'v option"
  decodeRest :: "byte list \<Rightarrow> byte list"
  parseQuery :: "string \<Rightarrow> header"
  parseForm :: "Request \<Rightarrow> header \<times> byte list"
  templateRender :: "string \<Rightarrow> 'v anyval \<Rightarrow> string \<times> bool"
  fallbackRender :: "string \<Rightarrow> 'v anyval \<Rightarrow> (byte list \<times> bool) option"
  ServeFile :: "ResponseWriter \<Rightarrow> Request \<Rightarrow> string \<Rightarrow> ResponseWriter"
  Redirect :: "ResponseWriter \<Rightarrow> Request \<Rightarrow> string \<Rightarrow> int \<Rightarrow> ResponseWriter"
  Stat :: "string \<Rightarrow> bool"
  Join :: "string \<Rightarrow> string \<Rightarrow> string"
  hijack :: hijack_result

definition marshal :: "'v Env \<Rightarrow> 'v anyval \<Rightarrow> byte list option" where
  "marshal env v =
     (case v of StringMap m \<Rightarrow> Some (marshalMap env m) | Opaque x \<Rightarrow> marshalOpaque env x)"

text \<open>
  The context.  \<^term>\<open>session\<close> is the pointer to the session, \<^term>\<open>hasTemplates\<close>
  tells whether the application has a template engine (of the application the context
  uses nothing else), and a \<^verbatim>\<open>nil\<close> map of parameters reads like an empty one.
\<close>

record 'v Context =
  Request :: Request
  Response :: ResponseWriter
  hasTemplates :: bool
  params :: "string \<rightharpoonup> string"
  query :: header
  form :: header
  session :: nat
  data_ctx :: "string \<rightharpoonup> 'v option"
  written :: bool
  statusCode :: int

text \<open>The mutable state outside the context: the sessions and the rest of the world.\<close>

record ('v, 'w) server =
  manager :: SessionManager
  store_of :: "'v store"
  world :: 'w

definition NewContext ::
  "'v Env \<Rightarrow> byte list \<Rightarrow> ResponseWriter \<Rightarrow> Request \<Rightarrow> bool \<Rightarrow> ('v, 'w) server \<Rightarrow>
     'v Context \<times> ('v, 'w) server"
where
  "NewContext env random w r templ srv =
     (let parsed = (if Method_req r = ''POST'' \<or> Method_req r = ''PUT'' \<or> Method_req r = ''PATCH''
                    then parseForm env r else (Map.empty, Body r));
          r' = r\<lparr>Body := snd parsed\<rparr>
      in case GetSession (manager srv) (store_of srv) random r' w of
           (p, sm', st', w') \<Rightarrow>
             (\<lparr>Request = r', Response = w', hasTemplates = templ, params = Map.empty,
               query = parseQuery env (URL_RawQuery r), form = fst parsed, session = p,
               data_ctx = Map.empty, written = False, statusCode = 200\<rparr>,
              srv\<lparr>manager := sm', store_of := st'\<rparr>))"

definition responseMode :: "Request \<Rightarrow> bool" where
  "responseMode r \<longleftrightarrow> Method_req r = ''GET'' \<or> ContentLength r = 0"

text \<open>
  The three lines that open \<^verbatim>\<open>sendJSON\<close>, \<^verbatim>\<open>String\<close>, \<^verbatim>\<open>HTML\<close> and
  \<^verbatim>\<open>Render\<close>: set the content type, write the header when the status is not 200, set
  the flag.  A panic of \<^verbatim>\<open>WriteHeader\<close> leaves the flag as it was.
\<close>

definition beginResponse :: "'v Context \<Rightarrow> string \<Rightarrow> 'v Context outcome" where
  "beginResponse c contentType =
     (let c1 = c\<lparr>Response := (Response c)\<lparr>Header_w :=
                   Header_Set (Header_w (Response c)) ''Content-Type'' contentType\<rparr>\<rparr>
      in if statusCode c1 \<noteq> 200
         then (case WriteHeader (Response c1) (statusCode c1) of
                 None \<Rightarrow> Panics c1
               | Some w \<Rightarrow> Returns (c1\<lparr>Response := w, written := True\<rparr>))
         else Returns (c1\<lparr>written := True\<rparr>))"

definition sendJSON ::
  "'v Env \<Rightarrow> 'v Context \<Rightarrow> 'v anyval \<Rightarrow> (go_error option \<times> 'v Context) outcome"
where
  "sendJSON env c v =
     (case beginResponse c ''application/json'' of
        Panics c' \<Rightarrow> Panics (None, c')
      | Returns c' \<Rightarrow>
          (case marshal env v of
             None \<Rightarrow> Returns (Some EncodeError, c')
           | Some bs \<Rightarrow>
               (case Write (Response c') (bs @ [10]) of
                  (w, err) \<Rightarrow> Returns (err, c'\<lparr>Response := w\<rparr>))))"

text \<open>
  \<^verbatim>\<open>JSON\<close> returns the error and the argument as the call leaves it: decoding stores
  into an \<^term>\<open>Opaque\<close> target and fails on a map passed by value.
\<close>

definition Context_JSON ::
  "'v Env \<Rightarrow> 'v Context \<Rightarrow> 'v anyval \<Rightarrow> (go_error option \<times> 'v anyval \<times> 'v Context) outcome"
where
  "Context_JSON env c v =
     (if Method_req (Request c) = ''GET'' \<or> ContentLength (Request c) = 0
      then (case sendJSON env c v of
              Panics (e, c') \<Rightarrow> Panics (e, v, c')
            | Returns (e, c') \<Rightarrow> Returns (e, v, c'))
      else (let c' = c\<lparr>Request := (Request c)\<lparr>Body := decodeRest env (Body (Request c))\<rparr>\<rparr>
            in case v of
                 StringMap m \<Rightarrow> Returns (Some DecodeError, v, c')
               | Opaque x \<Rightarrow>
                   (case unmarshal env (Body (Request c)) x of
                      None \<Rightarrow> Returns (Some DecodeError, v, c')
                    | Some x' \<Rightarrow> Returns (None, Opaque x', c'))))"

definition Context_String :: "'v Context \<Rightarrow> string \<Rightarrow> 'v Context outcome" where
  "Context_String c text =
     (case beginResponse c ''text/plain'' of
        Panics c' \<Rightarrow> Panics c'
      | Returns c' \<Rightarrow> Returns (c'\<lparr>Response := fst (Write (Response c') (bytes_of text))\<rparr>))"

definition Context_HTML :: "'v Context \<Rightarrow> string \<Rightarrow> 'v Context outcome" where
  "Context_HTML c html =
     (case beginResponse c ''text/html'' of
        Panics c' \<Rightarrow> Panics c'
      | Returns c' \<Rightarrow> Returns (c'\<lparr>Response := fst (Write (Response c') (bytes_of html))\<rparr>))"

definition Context_Render ::
  "'v Env \<Rightarrow> 'v Context \<Rightarrow> string \<Rightarrow> 'v anyval \<Rightarrow> (go_error option \<times> 'v Context) outcome"
where
  "Context_Render env c templateName v =
     (case beginResponse c ''text/html'' of
        Panics c' \<Rightarrow> Panics (None, c')
      | Returns c' \<Rightarrow>
          if hasTemplates c'
          then (case templateRender env templateName v of
                  (output, failed) \<Rightarrow>
                    if failed then Returns (Some TemplateError, c')
                    else if length output = 0 then Returns (Some TemplateError, c')
                    else Returns (None, c'\<lparr>Response := fst (Write (Response c') (bytes_of output))\<rparr>))
          else (case fallbackRender env templateName v of
                  None \<Rightarrow> Returns (Some TemplateError, c')
                | Some (bs, failed) \<Rightarrow>
                    if bs = [] then Returns (if failed then Some TemplateError else None, c')
                    else (case Write (Response c') bs of
                            (w, err) \<Rightarrow>
                              Returns (if err \<noteq> None then err
                                       else if failed then Some TemplateError else None,
                                       c'\<lparr>Response := w\<rparr>))))"

definition Context_File :: "'v Env \<Rightarrow> 'v Context \<Rightarrow> string \<Rightarrow> 'v Context" where
  "Context_File env c filePath =
     c\<lparr>Response := ServeFile env (Response c) (Request c) filePath, written := True\<rparr>"

definition Context_Redirect :: "'v Env \<Rightarrow> 'v Context \<Rightarrow> string \<Rightarrow> 'v Context" where
  "Context_Redirect env c url =
     c\<lparr>Response := Redirect env (Response c) (Request c) url 302, written := True\<rparr>"

definition Context_Status :: "'v Context \<Rightarrow> int \<Rightarrow> 'v Context" where
  "Context_Status c code = c\<lparr>statusCode := code\<rparr>"

definition Context_Header :: "'v Context \<Rightarrow> string \<Rightarrow> string \<Rightarrow> 'v Context" where
  "Context_Header c key v =
     c\<lparr>Response := (Response c)\<lparr>Header_w := Header_Set (Header_w (Response c)) key v\<rparr>\<rparr>"

definition Context_Cookie :: "'v Context \<Rightarrow> Cookie \<Rightarrow> 'v Context" where
  "Context_Cookie c cookie = c\<lparr>Response := SetCookie (Response c) cookie\<rparr>"

definition Context_Set :: "'v Context \<Rightarrow> string \<Rightarrow> 'v option \<Rightarrow> 'v Context" where
  "Context_Set c key v = c\<lparr>data_ctx := (data_ctx c)(key \<mapsto> v)\<rparr>"

definition Context_Get :: "'v Context \<Rightarrow> string \<Rightarrow> 'v option" where
  "Context_Get c key = (case data_ctx c key of None \<Rightarrow> None | Some v \<Rightarrow> v)"

definition Context_Param :: "'v Context \<Rightarrow> string \<Rightarrow> string" where
  "Context_Param c name = (case params c name of None \<Rightarrow> [] | Some v \<Rightarrow> v)"

definition Context_Body :: "'v Context \<Rightarrow> byte list \<times> 'v Context" where
  "Context_Body c = (Body (Request c), c\<lparr>Request := (Request c)\<lparr>Body := []\<rparr>\<rparr>)"

definition Context_IP :: "'v Context \<Rightarrow> string" where
  "Context_IP c =
     (if Header_Get (Header_req (Request c)) ''X-Forwarded-For'' \<noteq> []
      then hd (strings_Split (Header_Get (Header_req (Request c)) ''X-Forwarded-For'') (CHR '',''))
      else if Header_Get (Header_req (Request c)) ''X-Real-IP'' \<noteq> []
      then Header_Get (Header_req (Request c)) ''X-Real-IP''
      else RemoteAddr (Request c))"

text \<open>
  \<^verbatim>\<open>Upgrade\<close>, as far as the context goes: every refusal answers through
  \<^verbatim>\<open>c.Status(...).JSON(...)\<close>; after a successful hijack the handshake goes to the
  connection and the context is left alone.
\<close>

definition refuse ::
  "'v Env \<Rightarrow> 'v Context \<Rightarrow> int \<Rightarrow> string \<Rightarrow> (go_error option \<times> 'v Context) outcome"
where
  "refuse env c code msg =
     (case Context_JSON env (Context_Status c code) (StringMap [(''error'', msg)]) of
        Panics (e, v, c') \<Rightarrow> Panics (Some UpgradeError, c')
      | Returns (e, v, c') \<Rightarrow> Returns (Some UpgradeError, c'))"

definition Context_Upgrade :: "'v Env \<Rightarrow> 'v Context \<Rightarrow> (go_error option \<times> 'v Context) outcome" where
  "Context_Upgrade env c =
     (if Header_Get (Header_req (Request c)) ''Connection'' \<noteq> ''Upgrade'' \<or>
         Header_Get (Header_req (Request c)) ''Upgrade'' \<noteq> ''websocket''
      then refuse env c 400 ''Not a WebSocket upgrade request''
      else if Header_Get (Header_req (Request c)) ''Sec-WebSocket-Key'' = []
      then refuse env c 400 ''Missing Sec-WebSocket-Key header''
      else (case hijack env of
              NotHijacker \<Rightarrow> refuse env c 500 ''WebSocket upgrade not supported''
            | HijackFailed \<Rightarrow> refuse env c 500 ''Failed to hijack connection''
            | Hijacked ok \<Rightarrow> Returns (if ok then None else Some UpgradeError, c)))"

text \<open>
  The methods of the context as operations, to speak about everything a handler can do
  with it.  The methods that only read are the constructors of \<open>reader\<close>.
\<close>

datatype reader =
  R_Param string | R_ParamInt string | R_Query string | R_QueryDefault string string |
  R_QueryInt string | R_Form string | R_FormDefault string string | R_GetCookie string |
  R_Session | R_Get string | R_GetString string | R_GetInt string | R_IsAjax | R_IP |
  R_UserAgent | R_Method | R_Path | R_URL

datatype 'v ctx_op =
  Op_JSON "'v anyval" | Op_sendJSON "'v anyval" | Op_String string | Op_HTML string |
  Op_Render string "'v anyval" | Op_File string | Op_Redirect string | Op_Status int |
  Op_Header string string | Op_Cookie Cookie | Op_Set string "'v option" | Op_Body |
  Op_Upgrade | Op_Validate "'v anyval" | Op_Read reader

fun third :: "('a \<times> 'b \<times> 'c) outcome \<Rightarrow> 'c outcome" where
  "third (Returns (a, b, c)) = Returns c"
| "third (Panics (a, b, c)) = Panics c"

fun second :: "('a \<times> 'c) outcome \<Rightarrow> 'c outcome" where
  "second (Returns (a, c)) = Returns c"
| "second (Panics (a, c)) = Panics c"

fun step :: "'v Env \<Rightarrow> 'v ctx_op \<Rightarrow> 'v Context \<Rightarrow> 'v Context outcome" where
  "step env (Op_JSON v) c = third (Context_JSON env c v)"
| "step env (Op_sendJSON v) c = second (sendJSON env c v)"
| "step env (Op_String s) c = Context_String c s"
| "step env (Op_HTML s) c = Context_HTML c s"
| "step env (Op_Render n v) c = second (Context_Render env c n v)"
| "step env (Op_File p) c = Returns (Context_File env c p)"
| "step env (Op_Redirect u) c = Returns (Context_Redirect env c u)"
| "step env (Op_Status code) c = Returns (Context_Status c code)"
| "step env (Op_Header k v) c = Returns (Context_Header c k v)"
| "step env (Op_Cookie ck) c = Returns (Context_Cookie c ck)"
| "step env (Op_Set k v) c = Returns (Context_Set c k v)"
| "step env Op_Body c = Returns (snd (Context_Body c))"
| "step env Op_Upgrade c = second (Context_Upgrade env c)"
| "step env (Op_Validate v) c = Returns c"
| "step env (Op_Read r) c = Returns c"

text \<open>
  A run of operations stops at the first panic; it returns the operations that returned
  and the outcome.
\<close>

fun run :: "'v Env \<Rightarrow> 'v ctx_op list \<Rightarrow> 'v Context \<Rightarrow> 'v ctx_op list \<times> 'v Context outcome" where
  "run env [] c = ([], Returns c)"
| "run env (op # ops) c =
     (case step env op c of
        Panics c' \<Rightarrow> ([], Panics c')
      | Returns c' \<Rightarrow> (case run env ops c' of (done, r) \<Rightarrow> (op # done, r)))"

fun state_of :: "'a outcome \<Rightarrow> 'a" where
  "state_of (Returns a) = a"
| "state_of (Panics a) = a"

text \<open>
  The response-sending operations: \<^verbatim>\<open>sendJSON\<close>, \<^verbatim>\<open>JSON\<close> as a response (also
  inside a refusal of \<^verbatim>\<open>Upgrade\<close>), \<^verbatim>\<open>String\<close>, \<^verbatim>\<open>HTML\<close>, \<^verbatim>\<open>Render\<close>,
  \<^verbatim>\<open>File\<close> and \<^verbatim>\<open>Redirect\<close>.
\<close>

definition upgradeRefused :: "'v Env \<Rightarrow> Request \<Rightarrow> bool" where
  "upgradeRefused env r \<longleftrightarrow>
     Header_Get (Header_req r) ''Connection'' \<noteq> ''Upgrade'' \<or>
     Header_Get (Header_req r) ''Upgrade'' \<noteq> ''websocket'' \<or>
     Header_Get (Header_req r) ''Sec-WebSocket-Key'' = [] \<or>
     hijack env = NotHijacker \<or> hijack env = HijackFailed"

fun sends :: "'v Env \<Rightarrow> Request \<Rightarrow> 'v ctx_op \<Rightarrow> bool" where
  "sends env r (Op_JSON v) = responseMode r"
| "sends env r (Op_sendJSON v) = True"
| "sends env r (Op_String s) = True"
| "sends env r (Op_HTML s) = True"
| "sends env r (Op_Render n v) = True"
| "sends env r (Op_File p) = True"
| "sends env r (Op_Redirect u) = True"
| "sends env r Op_Upgrade = (responseMode r \<and> upgradeRefused env r)"
| "sends env r _ = False"

text \<open>What of a request decides whether an operation sends a response.\<close>

definition requestShape :: "Request \<Rightarrow> string \<times> int \<times> header" where
  "requestShape r = (Method_req r, ContentLength r, Header_req r)"

text \<open>An environment, a server state and requests for the examples.\<close>

definition exampleEnv :: "nat Env" where
  "exampleEnv =
     \<lparr>marshalMap = (\<lambda>m. bytes_of (concat (map (\<lambda>kv. fst kv @ '':'' @ snd kv) m))),
      marshalOpaque = (\<lambda>n. if n = 0 then None else Some (bytes_of (Itoa (int n)))),
      unmarshal = (\<lambda>bs x. if bs = [] then None else Some (length bs)),
      decodeRest = (\<lambda>bs. []),
      parseQuery = (\<lambda>s. Map.empty),
      parseForm = (\<lambda>r. (Map.empty, Body r)),
      templateRender = (\<lambda>n v. ([], True)),
      fallbackRender = (\<lambda>n v. None),
      ServeFile = (\<lambda>w r p. fst (Write w (bytes_of p))),
      Redirect = (\<lambda>w r u code.
        case WriteHeader (w\<lparr>Header_w := Header_Set (Header_w w) ''Location'' u\<rparr>) code of
          None \<Rightarrow> w | Some w' \<Rightarrow> w'),
      Stat = (\<lambda>p. p = ''public/logo.png''),
      Join = (\<lambda>a b. a @ b),
      hijack = NotHijacker\<rparr>"

definition exampleRequest :: "string \<Rightarrow> string \<Rightarrow> byte list \<Rightarrow> Request" where
  "exampleRequest m p b =
     \<lparr>Method_req = m, URL_Path = p, URL_RawQuery = [], Header_req = Map.empty,
      ContentLength = int (length b), Body = b, RemoteAddr = ''10.0.0.1:4000'',
      Cookies = [(''session_id'', ''s1'')]\<rparr>"

definition exampleServer :: "(nat, unit) server" where
  "exampleServer = \<lparr>manager = NewSessionManager, store_of = [], world = ()\<rparr>"

definition exampleContext :: "string \<Rightarrow> string \<Rightarrow> byte list \<Rightarrow> nat Context" where
  "exampleContext m p b =
     fst (NewContext exampleEnv [] newResponseWriter (exampleRequest m p b) False exampleServer)"

section \<open>The application\<close>

text \<open>
  Handlers and middleware are Go functions on the context pointer.  They see and change
  the context and the state outside it, and they return or panic; a middleware returns
  whether the request goes on.
\<close>

type_synonym ('v, 'w) hstate = "'v Context \<times> ('v, 'w) server"

type_synonym ('v, 'w) HandlerFunc = "('v, 'w) hstate \<Rightarrow> ('v, 'w) hstate outcome"

type_synonym ('v, 'w) MiddlewareFunc = "('v, 'w) hstate \<Rightarrow> (bool \<times> ('v, 'w) hstate) outcome"

text \<open>
  The application.  \<^term>\<open>templates\<close> tells whether it has a template engine;
  \<^term>\<open>static\<close> lists the entries of the map of static directories in the order in
  which the \<^verbatim>\<open>range\<close> loop of \<^verbatim>\<open>ServeHTTP\<close> meets them; the session manager is part
  of the server state.
\<close>

record ('v, 'w) App =
  router :: "('v, 'w) HandlerFunc Router"
  middleware :: "('v, 'w) MiddlewareFunc list"
  templates :: bool
  static :: "(string \<times> string) list"

definition New :: "('v, 'w) App" where
  "New = \<lparr>router = NewRouter, middleware = [], templates = True, static = []\<rparr>"

definition Use :: "('v, 'w) App \<Rightarrow> ('v, 'w) MiddlewareFunc \<Rightarrow> ('v, 'w) App" where
  "Use a mw = a\<lparr>middleware := middleware a @ [mw]\<rparr>"

definition Route :: "('v, 'w) App \<Rightarrow> string \<Rightarrow> string \<Rightarrow> ('v, 'w) HandlerFunc option \<Rightarrow> ('v, 'w) App" where
  "Route a m path handler = a\<lparr>router := Add (router a) m path handler\<rparr>"

definition Static :: "('v, 'w) App \<Rightarrow> string \<Rightarrow> string \<Rightarrow> ('v, 'w) App" where
  "Static a urlPath dirPath =
     a\<lparr>static := filter (\<lambda>e. fst e \<noteq> urlPath) (static a) @ [(urlPath, dirPath)]\<rparr>"

text \<open>
  What happened while a request was served: the calls of middleware (by position, with
  the value returned) and of the handler, their panics, the static file served, the line
  that the recovery logs.
\<close>

datatype event =
  ServedStatic string | CalledMiddleware nat bool | PanickedMiddleware nat |
  CalledHandler | PanickedHandler | LoggedPanic

record ('v, 'w) served =
  final :: "('v, 'w) hstate"
  events :: "event list"
  escaped :: bool

text \<open>The static entry that answers the request, if one does.\<close>

definition staticHit :: "'v Env \<Rightarrow> (string \<times> string) list \<Rightarrow> Request \<Rightarrow> string option" where
  "staticHit env entries r =
     (case find (\<lambda>e. length (fst e) \<le> length (URL_Path r) \<and>
                     take (length (fst e)) (URL_Path r) = fst e \<and>
                     Stat env (Join env (snd e) (drop (length (fst e)) (URL_Path r)))) entries of
        None \<Rightarrow> None
      | Some e \<Rightarrow> Some (Join env (snd e) (drop (length (fst e)) (URL_Path r))))"

text \<open>
  The middleware loop from position \<open>i\<close>: \<open>Returns (True, s)\<close> when every middleware
  returned true, \<open>Returns (False, s)\<close> when one returned false, \<open>Panics\<close> when one
  panicked.
\<close>

fun runMiddleware ::
  "('v, 'w) MiddlewareFunc list \<Rightarrow> nat \<Rightarrow> ('v, 'w) hstate \<Rightarrow>
     event list \<times> (bool \<times> ('v, 'w) hstate) outcome"
where
  "runMiddleware [] i s = ([], Returns (True, s))"
| "runMiddleware (mw # mws) i s =
     (case mw s of
        Panics (b, s') \<Rightarrow> ([PanickedMiddleware i], Panics (b, s'))
      | Returns (b, s') \<Rightarrow>
          if \<not> b then ([CalledMiddleware i False], Returns (False, s'))
          else (case runMiddleware mws (Suc i) s' of
                  (evs, res) \<Rightarrow> (CalledMiddleware i True # evs, res)))"

text \<open>
  \<^verbatim>\<open>ctx.Status(code).JSON(map[string]string{"error": msg})\<close>, on the context of a handler
  state.
\<close>

definition respondError ::
  "'v Env \<Rightarrow> ('v, 'w) hstate \<Rightarrow> int \<Rightarrow> string \<Rightarrow> ('v, 'w) hstate outcome"
where
  "respondError env s code msg =
     (case Context_JSON env (Context_Status (fst s) code) (StringMap [(''error'', msg)]) of
        Panics (e, v, c') \<Rightarrow> Panics (c', snd s)
      | Returns (e, v, c') \<Rightarrow> Returns (c', snd s))"

text \<open>
  The handler call with the deferred recovery: a panic of the handler is logged and, if
  the written flag is false, answered through \<^verbatim>\<open>ctx.Status(500).JSON(...)\<close>.
\<close>

definition callHandler ::
  "'v Env \<Rightarrow> ('v, 'w) HandlerFunc \<Rightarrow> ('v, 'w) hstate \<Rightarrow> ('v, 'w) served"
where
  "callHandler env handler s =
     (case handler s of
        Returns s' \<Rightarrow> \<lparr>final = s', events = [CalledHandler], escaped = False\<rparr>
      | Panics s' \<Rightarrow>
          if \<not> written (fst s')
          then (case respondError env s' 500 ''Internal Server Error'' of
                  Returns s'' \<Rightarrow>
                    \<lparr>final = s'', events = [PanickedHandler, LoggedPanic], escaped = False\<rparr>
                | Panics s'' \<Rightarrow>
                    \<lparr>final = s'', events = [PanickedHandler, LoggedPanic], escaped = True\<rparr>)
          else \<lparr>final = s', events = [PanickedHandler, LoggedPanic], escaped = False\<rparr>)"

text \<open>
  \<^verbatim>\<open>ServeHTTP\<close>.  The source calls \<^verbatim>\<open>NewContext(w, r, a.sessions)\<close>, one argument
  short of \<^verbatim>\<open>NewContext\<close> as it is declared; the application is the missing argument.
\<close>

definition ServeHTTP ::
  "'v Env \<Rightarrow> ('v, 'w) App \<Rightarrow> byte list \<Rightarrow> ResponseWriter \<Rightarrow> Request \<Rightarrow> ('v, 'w) server \<Rightarrow>
     ('v, 'w) served"
where
  "ServeHTTP env a random w r srv =
     (let s0 = NewContext env random w r (templates a) srv in
      case staticHit env (static a) r of
        Some filePath \<Rightarrow>
          \<lparr>final = ((fst s0)\<lparr>Response := ServeFile env (Response (fst s0)) (Request (fst s0)) filePath\<rparr>,
                    snd s0),
           events = [ServedStatic filePath], escaped = False\<rparr>
      | None \<Rightarrow>
          (case runMiddleware (middleware a) 0 s0 of
             (evs, Panics (b, s1)) \<Rightarrow> \<lparr>final = s1, events = evs, escaped = True\<rparr>
           | (evs, Returns (b, s1)) \<Rightarrow>
               if \<not> b then \<lparr>final = s1, events = evs, escaped = False\<rparr>
               else (case Match (router a) (Method_req r) (URL_Path r) of
                       (None, ps) \<Rightarrow>
                         (case respondError env s1 404 ''Not Found'' of
                            Returns s2 \<Rightarrow> \<lparr>final = s2, events = evs, escaped = False\<rparr>
                          | Panics s2 \<Rightarrow> \<lparr>final = s2, events = evs, escaped = True\<rparr>)
                     | (Some handler, ps) \<Rightarrow>
                         (let s2 = ((fst s1)\<lparr>params := (case ps of None \<Rightarrow> Map.empty | Some p \<Rightarrow> p)\<rparr>,
                                    snd s1);
                              h = callHandler env handler s2
                          in h\<lparr>events := evs @ events h\<rparr>))))"

text \<open>Handlers and middleware for the examples.\<close>

definition handlerOf :: "'v Env \<Rightarrow> 'v ctx_op list \<Rightarrow> ('v, 'w) HandlerFunc" where
  "handlerOf env ops s =
     (case snd (run env ops (fst s)) of
        Returns c \<Rightarrow> Returns (c, snd s)
      | Panics c \<Rightarrow> Panics (c, snd s))"

definition panicking :: "('v, 'w) HandlerFunc" where
  "panicking s = Panics s"

definition passing :: "string \<Rightarrow> ('v, 'w) MiddlewareFunc" where
  "passing name s = Returns (True, Context_Header (fst s) name ''seen'', snd s)"

definition stopping :: "('v, 'w) MiddlewareFunc" where
  "stopping s = Returns (False, Context_Status (fst s) 204, snd s)"

definition panickingMiddleware :: "('v, 'w) MiddlewareFunc" where
  "panickingMiddleware s = Panics (False, s)"

text \<open>
  The \<^verbatim>\<open>Recovery\<close> middleware: its deferred function runs when the middleware itself
  returns, which it does at once, with true.
\<close>

definition Recovery :: "('v, 'w) MiddlewareFunc" where
  "Recovery s = Returns (True, s)"

definition exampleApp :: "(nat, unit) App" where
  "exampleApp =
     Route (Route (Use (Use New Recovery) (passing ''X-B''))
              ''POST'' ''/items'' (Some panicking))
       ''GET'' ''/static/:file'' (Some (handlerOf exampleEnv [Op_String ''ok'']))"

section \<open>The rate limiter\<close>

text \<open>
  A time is a number of nanoseconds since the Unix epoch.  The limiter keeps, for each
  client address, the number of requests of the current window and the time at which the
  window ends.
\<close>

record client =
  requests :: int
  reset :: int

type_synonym clients = "string \<rightharpoonup> client"

definition minute :: int where
  "minute = 60 * 1000000000"

definition Unix :: "int \<Rightarrow> int" where
  "Unix t = t div 1000000000"

text \<open>The loop that deletes the entries whose window has ended.\<close>

definition cleanUp :: "int \<Rightarrow> clients \<Rightarrow> clients" where
  "cleanUp now cls =
     (\<lambda>k. case cls k of None \<Rightarrow> None | Some v \<Rightarrow> if reset v < now then None else Some v)"

text \<open>
  The function that \<^verbatim>\<open>RateLimit(requestsPerMinute)\<close> returns, with the time that
  \<^verbatim>\<open>time.Now()\<close> gives and the table of clients that the closure holds.
\<close>

definition rateLimit ::
  "'v Env \<Rightarrow> int \<Rightarrow> int \<Rightarrow> 'v Context \<Rightarrow> clients \<Rightarrow> (bool \<times> 'v Context \<times> clients) outcome"
where
  "rateLimit env requestsPerMinute now c cls =
     (let ip = Context_IP c;
          cls1 = cleanUp now cls;
          cl = (case cls1 ip of
                  None \<Rightarrow> \<lparr>requests = 0, reset = now + minute\<rparr>
                | Some v \<Rightarrow> v);
          cls2 = cls1(ip \<mapsto> cl)
      in if requestsPerMinute \<le> requests cl
         then (case Context_JSON env (Context_Status c 429)
                      (StringMap [(''error'', ''Rate limit exceeded'')]) of
                 Panics (e, v, c') \<Rightarrow> Panics (False, c', cls2)
               | Returns (e, v, c') \<Rightarrow> Returns (False, c', cls2))
         else (let cl' = cl\<lparr>requests := requests cl + 1\<rparr>;
                   c1 = Context_Header c ''X-RateLimit-Limit'' (Itoa requestsPerMinute);
                   c2 = Context_Header c1 ''X-RateLimit-Remaining''
                          (Itoa (requestsPerMinute - requests cl'));
                   c3 = Context_Header c2 ''X-RateLimit-Reset'' (Itoa (Unix (reset cl')))
               in Returns (True, c3, cls1(ip \<mapsto> cl'))))"

text \<open>The middleware: the clock and the table are in the world of the server state.\<close>

record limiter =
  clock :: int
  table :: clients

definition RateLimit :: "'v Env \<Rightarrow> int \<Rightarrow> ('v, limiter) MiddlewareFunc" where
  "RateLimit env requestsPerMinute s =
     (case rateLimit env requestsPerMinute (clock (world (snd s))) (fst s) (table (world (snd s))) of
        Panics (b, c', cls') \<Rightarrow>
          Panics (b, c', (snd s)\<lparr>world := (world (snd s))\<lparr>table := cls'\<rparr>\<rparr>)
      | Returns (b, c', cls') \<Rightarrow>
          Returns (b, c', (snd s)\<lparr>world := (world (snd s))\<lparr>table := cls'\<rparr>\<rparr>))"

text \<open>
  A sequence of requests through the limiter, each with its time and its own context: for
  each request the value that the middleware returns and the context as it leaves it, and
  the table at the end.
\<close>

fun limitAll ::
  "'v Env \<Rightarrow> int \<Rightarrow> (int \<times> 'v Context) list \<Rightarrow> clients \<Rightarrow>
     (bool \<times> 'v Context) list \<times> clients"
where
  "limitAll env n [] cls = ([], cls)"
| "limitAll env n ((now, c) # rest) cls =
     (case state_of (rateLimit env n now c cls) of
        (b, c', cls') \<Rightarrow>
          (case limitAll env n rest cls' of (bs, cls'') \<Rightarrow> ((b, c') # bs, cls'')))"

text \<open>
  The three headers of a request that the limiter lets pass: the limit, what is left of
  it, the end of the window in Unix seconds.
\<close>

definition limitHeaders :: "'v Context \<Rightarrow> int \<Rightarrow> int \<Rightarrow> int \<Rightarrow> bool" where
  "limitHeaders c lim remaining ends \<longleftrightarrow>
     Header_Get (Header_w (Response c)) ''X-RateLimit-Limit'' = Itoa lim \<and>
     Header_Get (Header_w (Response c)) ''X-RateLimit-Remaining'' = Itoa remaining \<and>
     Header_Get (Header_w (Response c)) ''X-RateLimit-Reset'' = Itoa (Unix ends)"

text \<open>
  The entry that a request at time \<open>now\<close> from the address \<open>ip\<close> is counted against:
  the entry of the table if its window has not ended, a new one otherwise.
\<close>

definition entryAt :: "int \<Rightarrow> clients \<Rightarrow> string \<Rightarrow> client" where
  "entryAt now cls ip =
     (case cleanUp now cls ip of
        None \<Rightarrow> \<lparr>requests = 0, reset = now + minute\<rparr>
      | Some v \<Rightarrow> v)"

definition fromAddress :: "string \<Rightarrow> (int \<times> 'v Context) list \<Rightarrow> (int \<times> 'v Context) list" where
  "fromAddress ip reqs = filter (\<lambda>x. Context_IP (snd x) = ip) reqs"

section \<open>Facts about the string functions\<close>

lemma strings_Split_nonempty: "strings_Split s sep \<noteq> []"
  by (induction s) (auto split: list.splits)

lemma length_strings_Split: "length (strings_Split s sep) = Suc (count_list s sep)"
  by (induction s) (auto split: list.splits simp: strings_Split_nonempty)

lemma strings_Split_no_sep: "seg \<in> set (strings_Split s sep) \<Longrightarrow> sep \<notin> set seg"
  by (induction s arbitrary: seg) (auto split: list.splits if_splits)

lemma strings_Join_Cons: "strings_Join ((a # x) # xs) sep = a # strings_Join (x # xs) sep"
  by (cases xs) simp_all

lemma strings_Join_Split: "strings_Join (strings_Split s sep) sep = s"
  by (induction s) (auto split: list.splits simp: strings_Split_nonempty strings_Join_Cons)

lemma dropWhile_decomp: "\<exists>n. s = replicate n c @ dropWhile (\<lambda>x. x = c) s"
proof (induction s)
  case Nil
  then show ?case by simp
next
  case (Cons a s)
  then obtain n where n: "s = replicate n c @ dropWhile (\<lambda>x. x = c) s" by blast
  show ?case
  proof (cases "a = c")
    case True
    with n have "a # s = replicate (Suc n) c @ dropWhile (\<lambda>x. x = c) (a # s)" by simp
    then show ?thesis by blast
  next
    case False
    then have "a # s = replicate 0 c @ dropWhile (\<lambda>x. x = c) (a # s)" by simp
    then show ?thesis by blast
  qed
qed

lemma strings_Trim_decomp:
  "\<exists>n m. s = replicate n c @ strings_Trim s c @ replicate m c"
proof -
  from dropWhile_decomp[of s c]
  obtain n where n: "s = replicate n c @ dropWhile (\<lambda>x. x = c) s" ..
  from dropWhile_decomp[of "rev (dropWhile (\<lambda>x. x = c) s)" c]
  obtain m where m: "rev (dropWhile (\<lambda>x. x = c) s) =
      replicate m c @ dropWhile (\<lambda>x. x = c) (rev (dropWhile (\<lambda>x. x = c) s))" ..
  have "rev (rev (dropWhile (\<lambda>x. x = c) s)) =
      rev (replicate m c @ dropWhile (\<lambda>x. x = c) (rev (dropWhile (\<lambda>x. x = c) s)))"
    by (rule arg_cong[OF m])
  then have "dropWhile (\<lambda>x. x = c) s = strings_Trim s c @ replicate m c"
    by (simp add: strings_Trim_def)
  with n have "s = replicate n c @ strings_Trim s c @ replicate m c" by simp
  then show ?thesis by blast
qed

lemma dropWhile_hd: "dropWhile (\<lambda>x. x = c) s \<noteq> [] \<Longrightarrow> hd (dropWhile (\<lambda>x. x = c) s) \<noteq> c"
  by (induction s) auto

lemma strings_Trim_no_edge:
  assumes ne: "strings_Trim s c \<noteq> []"
  shows "hd (strings_Trim s c) \<noteq> c \<and> last (strings_Trim s c) \<noteq> c"
proof -
  define d where "d = dropWhile (\<lambda>x. x = c) s"
  define e where "e = dropWhile (\<lambda>x. x = c) (rev d)"
  have t: "strings_Trim s c = rev e" by (simp add: strings_Trim_def d_def e_def)
  from ne t have e: "e \<noteq> []" by simp
  then have "hd e \<noteq> c" unfolding e_def by (rule dropWhile_hd)
  with e have l: "last (rev e) \<noteq> c" by (simp add: last_rev)
  from e have d: "d \<noteq> []" unfolding e_def by (cases d) auto
  then have hd: "hd d \<noteq> c" unfolding d_def by (rule dropWhile_hd)
  from dropWhile_decomp[of "rev d" c]
  obtain m where m: "rev d = replicate m c @ e" unfolding e_def ..
  then have "rev (rev d) = rev (replicate m c @ e)" by (rule arg_cong)
  then have "d = rev e @ replicate m c" by simp
  with e have "hd d = hd (rev e)" by simp
  with hd l t show ?thesis by simp
qed

lemma segmentText_compileSegment: "segmentText (compileSegment s) = s"
  by (cases s) (auto simp: segmentText_def compileSegment_def strings_HasPrefix_def)

lemma matchSegments_other:
  "matchSegments segs ps m = (Some binds, True) \<Longrightarrow>
   \<forall>s \<in> set segs. IsParam s \<longrightarrow> Name s \<noteq> k \<Longrightarrow> binds k = m k"
  by (induction segs ps m rule: matchSegments.induct) (auto split: if_splits)

lemma matchSegments_last:
  "matchSegments segs ps m = (Some binds, True) \<Longrightarrow> i < length segs \<Longrightarrow>
   IsParam (segs ! i) \<Longrightarrow>
   \<forall>j. i < j \<and> j < length segs \<longrightarrow> \<not> (IsParam (segs ! j) \<and> Name (segs ! j) = Name (segs ! i)) \<Longrightarrow>
   binds (Name (segs ! i)) = Some (ps ! i)"
proof (induction segs arbitrary: ps m i)
  case Nil
  then show ?case by simp
next
  case (Cons seg segs)
  from Cons.prems(1) obtain p ps' where ps: "ps = p # ps'"
    by (cases ps) auto
  define m' where "m' = (if IsParam seg then m(Name seg \<mapsto> p) else m)"
  from Cons.prems(1) ps have run: "matchSegments segs ps' m' = (Some binds, True)"
    by (auto simp: m'_def split: if_splits)
  show ?case
  proof (cases i)
    case 0
    have "\<forall>s \<in> set segs. IsParam s \<longrightarrow> Name s \<noteq> Name seg"
    proof (intro ballI impI)
      fix s assume s: "s \<in> set segs" "IsParam s"
      then obtain j where j: "j < length segs" "segs ! j = s"
        by (auto simp: in_set_conv_nth)
      from Cons.prems(4) 0 j(1)
      have "\<not> (IsParam ((seg # segs) ! Suc j) \<and> Name ((seg # segs) ! Suc j) = Name seg)"
        by auto
      with j s show "Name s \<noteq> Name seg" by simp
    qed
    from matchSegments_other[OF run this] Cons.prems(3) 0 ps show ?thesis
      by (simp add: m'_def)
  next
    case (Suc i')
    have "\<forall>j. i' < j \<and> j < length segs \<longrightarrow>
            \<not> (IsParam (segs ! j) \<and> Name (segs ! j) = Name (segs ! i'))"
    proof (intro allI impI)
      fix j assume "i' < j \<and> j < length segs"
      with Cons.prems(4)[rule_format, of "Suc j"] Suc
      show "\<not> (IsParam (segs ! j) \<and> Name (segs ! j) = Name (segs ! i'))" by simp
    qed
    from Cons.IH[OF run _ _ this] Cons.prems(2,3) Suc ps show ?thesis by simp
  qed
qed

lemma matchSegments_dom:
  "matchSegments segs ps m = (Some binds, True) \<Longrightarrow>
   dom binds = dom m \<union> Name ` {s \<in> set segs. IsParam s}"
  by (induction segs ps m rule: matchSegments.induct) (auto split: if_splits)

lemma matchSegments_snd:
  "length segs = length ps \<Longrightarrow>
   snd (matchSegments segs ps m) = list_all2 (\<lambda>s p. IsParam s \<or> Value s = p) segs ps"
  by (induction segs ps arbitrary: m rule: list_induct2) auto

lemma matchSegments_ok:
  "length segs = length ps \<Longrightarrow>
   snd (matchSegments segs ps m) = (\<forall>i < length segs. \<not> IsParam (segs ! i) \<longrightarrow> Value (segs ! i) = ps ! i)"
  by (auto simp: matchSegments_snd list_all2_conv_all_nth)

lemma matchSegments_shape:
  "matchSegments segs ps m = (r, b) \<Longrightarrow> (b \<longrightarrow> r \<noteq> None) \<and> (\<not> b \<longrightarrow> r = None)"
  by (induction segs ps m rule: matchSegments.induct) (auto split: if_splits)

lemma routes_addAll: "routes (addAll r regs) = routes r @ map registration_route regs"
  unfolding addAll_def
  by (induction regs arbitrary: r) (auto simp: Add_def registration_route_def)

lemma matchPattern_accepts:
  "Method route = method \<and> snd (matchPattern (Pattern route) ps) \<longleftrightarrow> route_accepts route method ps"
  by (auto simp: matchPattern_def route_accepts_def matchSegments_ok)

lemma matchRoutes_none:
  "\<forall>route \<in> set rs. \<not> route_accepts route method ps \<Longrightarrow> matchRoutes rs method ps = (None, None)"
proof (induction rs)
  case Nil
  then show ?case by simp
next
  case (Cons route rs)
  then have "\<not> route_accepts route method ps" by simp
  then have "Method route \<noteq> method \<or> \<not> snd (matchPattern (Pattern route) ps)"
    using matchPattern_accepts by blast
  with Cons show ?case by (auto split: prod.splits)
qed

lemma matchRoutes_first:
  "i < length rs \<Longrightarrow> route_accepts (rs ! i) method ps \<Longrightarrow>
   \<forall>j < i. \<not> route_accepts (rs ! j) method ps \<Longrightarrow>
   matchRoutes rs method ps =
     (Handler (rs ! i), fst (matchSegments (Segments (Pattern (rs ! i))) ps Map.empty))"
proof (induction rs arbitrary: i)
  case Nil
  then show ?case by simp
next
  case (Cons route rs)
  show ?case
  proof (cases i)
    case 0
    with Cons.prems(2) have acc: "route_accepts route method ps" by simp
    then have "Method route = method" "snd (matchPattern (Pattern route) ps)"
      using matchPattern_accepts by blast+
    moreover from acc have "matchPattern (Pattern route) ps =
        matchSegments (Segments (Pattern route)) ps Map.empty"
      by (simp add: matchPattern_def route_accepts_def)
    ultimately show ?thesis using 0
      by (cases "matchSegments (Segments (Pattern route)) ps Map.empty") simp
  next
    case (Suc i')
    from Cons.prems(3) Suc have "\<not> route_accepts route method ps" by auto
    then have skip: "Method route \<noteq> method \<or> \<not> snd (matchPattern (Pattern route) ps)"
      using matchPattern_accepts by blast
    from Cons.prems(3) Suc have "\<forall>j < i'. \<not> route_accepts (rs ! j) method ps" by auto
    from Cons.IH[OF _ _ this, of ] Cons.prems(1,2) Suc
    have "matchRoutes rs method ps =
      (Handler (rs ! i'), fst (matchSegments (Segments (Pattern (rs ! i'))) ps Map.empty))"
      by simp
    with skip Suc show ?thesis by (auto split: prod.splits)
  qed
qed

lemma matchSegments_accepts:
  assumes "route_accepts route method ps"
  shows "\<exists>binds. matchSegments (Segments (Pattern route)) ps Map.empty = (Some binds, True)"
proof -
  from assms have len: "length (Segments (Pattern route)) = length ps"
    by (simp add: route_accepts_def)
  from assms have "snd (matchSegments (Segments (Pattern route)) ps Map.empty)"
    using matchSegments_ok[OF len] by (simp add: route_accepts_def)
  then show ?thesis
    using matchSegments_shape[of "Segments (Pattern route)" ps Map.empty]
    by (cases "matchSegments (Segments (Pattern route)) ps Map.empty") auto
qed

text \<open>
  C1 (amended).  For a router built from the empty router by a sequence of calls
  \<^verbatim>\<open>Add(method, path, handler)\<close> the routes are the registrations in their order.
  If no route accepts the request (equal method, equal segment count, every literal
  segment equal to the path segment at its position), \<^verbatim>\<open>Match\<close> returns
  \<^verbatim>\<open>(nil, nil)\<close>.  Otherwise it returns the handler of the first accepting route in
  registration order, with a map of bindings whose keys are the names of that route's
  parameter segments; a parameter segment binds its name to the text of the path segment
  at its position, unchanged, unless a later parameter segment of the route has the same
  name (the later binding replaces the earlier one).  Of two registrations with the same
  method and path the later one is never the first accepting route.
\<close>

theorem Match_first_accepting_route:
  "routes (addAll NewRouter regs) = map registration_route regs \<and>
   ((\<forall>i < length regs. \<not> route_accepts (registration_route (regs ! i)) method (pathSegmentsOf path)) \<longrightarrow>
      Match (addAll NewRouter regs) method path = (None, None)) \<and>
   (\<forall>i < length regs.
      route_accepts (registration_route (regs ! i)) method (pathSegmentsOf path) \<and>
      (\<forall>j < i. \<not> route_accepts (registration_route (regs ! j)) method (pathSegmentsOf path)) \<longrightarrow>
      (\<exists>binds.
         Match (addAll NewRouter regs) method path = (snd (snd (regs ! i)), Some binds) \<and>
         dom binds =
           set (map Name (filter IsParam (Segments (compilePattern (fst (snd (regs ! i))))))) \<and>
         (\<forall>k < length (pathSegmentsOf path).
            IsParam (Segments (compilePattern (fst (snd (regs ! i)))) ! k) \<and>
            (\<forall>k'. k < k' \<and> k' < length (pathSegmentsOf path) \<longrightarrow>
               \<not> (IsParam (Segments (compilePattern (fst (snd (regs ! i)))) ! k') \<and>
                  Name (Segments (compilePattern (fst (snd (regs ! i)))) ! k') =
                  Name (Segments (compilePattern (fst (snd (regs ! i)))) ! k))) \<longrightarrow>
            binds (Name (Segments (compilePattern (fst (snd (regs ! i)))) ! k)) =
              Some (pathSegmentsOf path ! k)))) \<and>
   (\<forall>i j. i < j \<and> j < length regs \<and> fst (regs ! i) = fst (regs ! j) \<and>
      fst (snd (regs ! i)) = fst (snd (regs ! j)) \<longrightarrow>
      \<not> (route_accepts (registration_route (regs ! j)) method (pathSegmentsOf path) \<and>
         (\<forall>j' < j. \<not> route_accepts (registration_route (regs ! j')) method (pathSegmentsOf path))))"
  (is "?A \<and> ?B \<and> ?C \<and> ?D")
proof -
  let ?ps = "pathSegmentsOf path"
  let ?rs = "map registration_route regs"
  have A: ?A by (simp add: routes_addAll NewRouter_def)
  have M: "Match (addAll NewRouter regs) method path = matchRoutes ?rs method ?ps"
    by (simp add: Match_def A)
  have B: ?B
  proof
    assume none: "\<forall>i < length regs. \<not> route_accepts (registration_route (regs ! i)) method ?ps"
    have "\<forall>route \<in> set ?rs. \<not> route_accepts route method ?ps"
    proof
      fix route assume "route \<in> set ?rs"
      then obtain i where "i < length regs" "route = registration_route (regs ! i)"
        by (auto simp: in_set_conv_nth)
      with none show "\<not> route_accepts route method ?ps" by simp
    qed
    then show "Match (addAll NewRouter regs) method path = (None, None)"
      unfolding M by (rule matchRoutes_none)
  qed
  have C: ?C
  proof (intro allI impI)
    fix i
    assume i: "i < length regs"
    assume h: "route_accepts (registration_route (regs ! i)) method ?ps \<and>
      (\<forall>j < i. \<not> route_accepts (registration_route (regs ! j)) method ?ps)"
    let ?route = "registration_route (regs ! i)"
    let ?segs = "Segments (compilePattern (fst (snd (regs ! i))))"
    have segs: "Segments (Pattern ?route) = ?segs"
      by (simp add: registration_route_def)
    have hdl: "Handler ?route = snd (snd (regs ! i))"
      by (simp add: registration_route_def)
    from h have acc: "route_accepts ?route method ?ps" by simp
    then obtain binds where run: "matchSegments ?segs ?ps Map.empty = (Some binds, True)"
      using matchSegments_accepts[of ?route _ ?ps] segs by auto
    from acc segs have len: "length ?segs = length ?ps" by (simp add: route_accepts_def)
    have "matchRoutes ?rs method ?ps =
        (Handler (?rs ! i), fst (matchSegments (Segments (Pattern (?rs ! i))) ?ps Map.empty))"
    proof (rule matchRoutes_first)
      show "i < length ?rs" using i by simp
      show "route_accepts (?rs ! i) method ?ps" using acc i by simp
      show "\<forall>j < i. \<not> route_accepts (?rs ! j) method ?ps" using h i by simp
    qed
    with i segs hdl run have m: "Match (addAll NewRouter regs) method path = (snd (snd (regs ! i)), Some binds)"
      by (simp add: M)
    have d: "dom binds = set (map Name (filter IsParam ?segs))"
      using matchSegments_dom[OF run] by auto
    have l: "\<forall>k < length ?ps.
            IsParam (?segs ! k) \<and>
            (\<forall>k'. k < k' \<and> k' < length ?ps \<longrightarrow>
               \<not> (IsParam (?segs ! k') \<and> Name (?segs ! k') = Name (?segs ! k))) \<longrightarrow>
            binds (Name (?segs ! k)) = Some (?ps ! k)"
    proof (intro allI impI)
      fix k
      assume k: "k < length ?ps"
      assume c: "IsParam (?segs ! k) \<and>
            (\<forall>k'. k < k' \<and> k' < length ?ps \<longrightarrow>
               \<not> (IsParam (?segs ! k') \<and> Name (?segs ! k') = Name (?segs ! k)))"
      show "binds (Name (?segs ! k)) = Some (?ps ! k)"
      proof (rule matchSegments_last[OF run])
        show "k < length ?segs" using k len by simp
        show "IsParam (?segs ! k)" using c by simp
        show "\<forall>j. k < j \<and> j < length ?segs \<longrightarrow>
            \<not> (IsParam (?segs ! j) \<and> Name (?segs ! j) = Name (?segs ! k))"
          using c len by simp
      qed
    qed
    from m d l show "\<exists>binds.
         Match (addAll NewRouter regs) method path = (snd (snd (regs ! i)), Some binds) \<and>
         dom binds = set (map Name (filter IsParam ?segs)) \<and>
         (\<forall>k < length ?ps.
            IsParam (?segs ! k) \<and>
            (\<forall>k'. k < k' \<and> k' < length ?ps \<longrightarrow>
               \<not> (IsParam (?segs ! k') \<and> Name (?segs ! k') = Name (?segs ! k))) \<longrightarrow>
            binds (Name (?segs ! k)) = Some (?ps ! k))"
      by blast
  qed
  have D: ?D
  proof (intro allI impI notI)
    fix i j
    assume h: "i < j \<and> j < length regs \<and> fst (regs ! i) = fst (regs ! j) \<and>
      fst (snd (regs ! i)) = fst (snd (regs ! j))"
    assume f: "route_accepts (registration_route (regs ! j)) method ?ps \<and>
         (\<forall>j' < j. \<not> route_accepts (registration_route (regs ! j')) method ?ps)"
    from h have "route_accepts (registration_route (regs ! i)) method ?ps =
        route_accepts (registration_route (regs ! j)) method ?ps"
      by (simp add: route_accepts_def registration_route_def)
    with f h show False by auto
  qed
  from A B C D show ?thesis by blast
qed

lemma route_accepts_list_all2:
  "route_accepts route method ps \<longleftrightarrow>
     Method route = method \<and>
     list_all2 (\<lambda>s p. IsParam s \<or> Value s = p) (Segments (Pattern route)) ps"
  by (auto simp: route_accepts_def list_all2_conv_all_nth)

lemmas router_eval =
  route_accepts_list_all2 registration_route_def compilePattern_def compileSegment_def
  strings_Trim_def strings_HasPrefix_def

text \<open>
  The amended claim at a concrete router: \<^verbatim>\<open>/users/:id/edit\<close> does not match
  \<^verbatim>\<open>GET /users/42\<close>, the first of the two registrations of \<^verbatim>\<open>/users/:id\<close>
  wins and binds \<^verbatim>\<open>id\<close> to \<^verbatim>\<open>42\<close>, and no route matches the method
  \<^verbatim>\<open>POST\<close>.
\<close>

theorem Match_first_accepting_route_witness:
  "fst (Match (addAll NewRouter
          [(''GET'', ''/users/:id/edit'', Some (7::nat)),
           (''GET'', ''/users/:id'', Some 1),
           (''GET'', ''/users/:id'', Some 2)]) ''GET'' ''/users/42'') = Some 1 \<and>
   (\<exists>binds.
      snd (Match (addAll NewRouter
          [(''GET'', ''/users/:id/edit'', Some (7::nat)),
           (''GET'', ''/users/:id'', Some 1),
           (''GET'', ''/users/:id'', Some 2)]) ''GET'' ''/users/42'') = Some binds \<and>
      dom binds = {''id''} \<and> binds ''id'' = Some ''42'') \<and>
   Match (addAll NewRouter
          [(''GET'', ''/users/:id/edit'', Some (7::nat)),
           (''GET'', ''/users/:id'', Some 1),
           (''GET'', ''/users/:id'', Some 2)]) ''POST'' ''/users/42'' = (None, None)"
proof -
  let ?regs = "[(''GET'', ''/users/:id/edit'', Some (7::nat)),
           (''GET'', ''/users/:id'', Some 1),
           (''GET'', ''/users/:id'', Some 2)]"
  have ps: "pathSegmentsOf ''/users/42'' = [''users'', ''42'']"
    by (simp add: strings_Trim_def)
  have segs: "Segments (compilePattern ''/users/:id'') =
      [\<lparr>IsParam = False, Name = [], Value = ''users''\<rparr>,
       \<lparr>IsParam = True, Name = ''id'', Value = []\<rparr>]"
    by (simp add: router_eval)
  have acc1: "route_accepts (registration_route (?regs ! 1)) ''GET'' (pathSegmentsOf ''/users/42'')"
    by (simp add: router_eval)
  have rej0: "\<forall>j < 1. \<not> route_accepts (registration_route (?regs ! j)) ''GET'' (pathSegmentsOf ''/users/42'')"
    by (simp add: router_eval)
  from Match_first_accepting_route[of ?regs "''GET''" "''/users/42''"]
  have "\<forall>i < length ?regs.
      route_accepts (registration_route (?regs ! i)) ''GET'' (pathSegmentsOf ''/users/42'') \<and>
      (\<forall>j < i. \<not> route_accepts (registration_route (?regs ! j)) ''GET'' (pathSegmentsOf ''/users/42'')) \<longrightarrow>
      (\<exists>binds.
         Match (addAll NewRouter ?regs) ''GET'' ''/users/42'' = (snd (snd (?regs ! i)), Some binds) \<and>
         dom binds =
           set (map Name (filter IsParam (Segments (compilePattern (fst (snd (?regs ! i))))))) \<and>
         (\<forall>k < length (pathSegmentsOf ''/users/42'').
            IsParam (Segments (compilePattern (fst (snd (?regs ! i)))) ! k) \<and>
            (\<forall>k'. k < k' \<and> k' < length (pathSegmentsOf ''/users/42'') \<longrightarrow>
               \<not> (IsParam (Segments (compilePattern (fst (snd (?regs ! i)))) ! k') \<and>
                  Name (Segments (compilePattern (fst (snd (?regs ! i)))) ! k') =
                  Name (Segments (compilePattern (fst (snd (?regs ! i)))) ! k))) \<longrightarrow>
            binds (Name (Segments (compilePattern (fst (snd (?regs ! i)))) ! k)) =
              Some (pathSegmentsOf ''/users/42'' ! k)))"
    by blast
  from this[rule_format, of 1] acc1 rej0
  obtain binds where
    m: "Match (addAll NewRouter ?regs) ''GET'' ''/users/42'' = (snd (snd (?regs ! 1)), Some binds)" and
    d: "dom binds =
           set (map Name (filter IsParam (Segments (compilePattern (fst (snd (?regs ! 1)))))))" and
    l: "\<forall>k < length (pathSegmentsOf ''/users/42'').
            IsParam (Segments (compilePattern (fst (snd (?regs ! 1)))) ! k) \<and>
            (\<forall>k'. k < k' \<and> k' < length (pathSegmentsOf ''/users/42'') \<longrightarrow>
               \<not> (IsParam (Segments (compilePattern (fst (snd (?regs ! 1)))) ! k') \<and>
                  Name (Segments (compilePattern (fst (snd (?regs ! 1)))) ! k') =
                  Name (Segments (compilePattern (fst (snd (?regs ! 1)))) ! k))) \<longrightarrow>
            binds (Name (Segments (compilePattern (fst (snd (?regs ! 1)))) ! k)) =
              Some (pathSegmentsOf ''/users/42'' ! k)"
    by auto
  from m have f: "fst (Match (addAll NewRouter ?regs) ''GET'' ''/users/42'') = Some 1"
    and sn: "snd (Match (addAll NewRouter ?regs) ''GET'' ''/users/42'') = Some binds"
    by simp_all
  from d have d': "dom binds = {''id''}"
    by (simp add: segs)
  from l[rule_format, of 1] have l': "binds ''id'' = Some ''42''"
    by (simp add: ps segs)
  from Match_first_accepting_route[of ?regs "''POST''" "''/users/42''"]
  have "(\<forall>i < length ?regs. \<not> route_accepts (registration_route (?regs ! i)) ''POST'' (pathSegmentsOf ''/users/42'')) \<longrightarrow>
      Match (addAll NewRouter ?regs) ''POST'' ''/users/42'' = (None, None)"
    by blast
  moreover have "list_all (\<lambda>reg. \<not> route_accepts (registration_route reg) ''POST'' (pathSegmentsOf ''/users/42'')) ?regs"
    by (simp add: route_accepts_def registration_route_def)
  then have "\<forall>i < length ?regs. \<not> route_accepts (registration_route (?regs ! i)) ''POST'' (pathSegmentsOf ''/users/42'')"
    unfolding list_all_length .
  ultimately have n: "Match (addAll NewRouter ?regs) ''POST'' ''/users/42'' = (None, None)"
    by blast
  from f sn d' l' n show ?thesis by blast
qed

text \<open>
  C1 as stated fails where a template names one parameter twice: after
  \<^verbatim>\<open>Add("GET", "/:a/:a", h)\<close>, \<^verbatim>\<open>Match("GET", "/x/y")\<close> returns the bindings
  \<^verbatim>\<open>{a: y}\<close>.  The first segment is a parameter segment named \<^verbatim>\<open>a\<close> and its
  path segment is \<^verbatim>\<open>x\<close>, but the returned map binds \<^verbatim>\<open>a\<close> to \<^verbatim>\<open>y\<close>.
\<close>

theorem Match_duplicate_parameter_counterexample:
  "IsParam (Segments (compilePattern ''/:a/:a'') ! 0) \<and>
   Name (Segments (compilePattern ''/:a/:a'') ! 0) = ''a'' \<and>
   pathSegmentsOf ''/x/y'' ! 0 = ''x'' \<and>
   Match (Add NewRouter ''GET'' ''/:a/:a'' (Some (0::nat))) ''GET'' ''/x/y'' =
     (Some 0, Some [''a'' \<mapsto> ''y'']) \<and>
   [''a'' \<mapsto> ''y''] (Name (Segments (compilePattern ''/:a/:a'') ! 0)) \<noteq>
     Some (pathSegmentsOf ''/x/y'' ! 0)"
  by (simp add: Match_def Add_def NewRouter_def compilePattern_def compileSegment_def
      strings_Trim_def strings_HasPrefix_def matchPattern_def)

text \<open>
  C5.  \<^verbatim>\<open>compilePattern\<close> trims the slashes at both ends of the template (and nothing
  else), splits the rest at every slash, and has exactly one segment for each piece: one
  more than the number of slashes left after trimming.  A piece that begins with a colon
  becomes a parameter segment named by the rest of the piece, every other piece becomes a
  literal segment holding the piece itself, so that the pieces can be read back from the
  segments.  The root template \<^verbatim>\<open>/\<close> has a single empty literal segment.
\<close>

theorem compilePattern_segments:
  "length (Segments (compilePattern path)) = length (pathSegmentsOf path) \<and>
   length (Segments (compilePattern path)) =
     Suc (count_list (strings_Trim path (CHR ''/'')) (CHR ''/'')) \<and>
   (\<forall>i < length (pathSegmentsOf path).
      (\<forall>rest. pathSegmentsOf path ! i = CHR '':'' # rest \<longrightarrow>
         Segments (compilePattern path) ! i = \<lparr>IsParam = True, Name = rest, Value = []\<rparr>) \<and>
      ((\<forall>rest. pathSegmentsOf path ! i \<noteq> CHR '':'' # rest) \<longrightarrow>
         Segments (compilePattern path) ! i =
           \<lparr>IsParam = False, Name = [], Value = pathSegmentsOf path ! i\<rparr>)) \<and>
   strings_Join (map segmentText (Segments (compilePattern path))) (CHR ''/'') =
     strings_Trim path (CHR ''/'') \<and>
   (\<exists>n m. path = replicate n (CHR ''/'') @ strings_Trim path (CHR ''/'') @ replicate m (CHR ''/'')) \<and>
   (strings_Trim path (CHR ''/'') \<noteq> [] \<longrightarrow>
      hd (strings_Trim path (CHR ''/'')) \<noteq> CHR ''/'' \<and>
      last (strings_Trim path (CHR ''/'')) \<noteq> CHR ''/'') \<and>
   compilePattern ''/'' = \<lparr>Segments = [\<lparr>IsParam = False, Name = [], Value = []\<rparr>]\<rparr>"
  (is "?A \<and> ?B \<and> ?C \<and> ?D \<and> ?E \<and> ?F \<and> ?G")
proof -
  have A: ?A by (simp add: compilePattern_def)
  have B: ?B by (simp add: compilePattern_def length_strings_Split)
  have C: ?C
  proof (intro allI impI conjI)
    fix i rest
    assume "i < length (pathSegmentsOf path)" "pathSegmentsOf path ! i = CHR '':'' # rest"
    then show "Segments (compilePattern path) ! i = \<lparr>IsParam = True, Name = rest, Value = []\<rparr>"
      by (simp add: compilePattern_def compileSegment_def strings_HasPrefix_def)
  next
    fix i
    assume i: "i < length (pathSegmentsOf path)"
      and lit: "\<forall>rest. pathSegmentsOf path ! i \<noteq> CHR '':'' # rest"
    then have "\<not> strings_HasPrefix (pathSegmentsOf path ! i) (CHR '':'')"
      by (cases "pathSegmentsOf path ! i") (auto simp: strings_HasPrefix_def)
    with i show "Segments (compilePattern path) ! i =
        \<lparr>IsParam = False, Name = [], Value = pathSegmentsOf path ! i\<rparr>"
      by (simp add: compilePattern_def compileSegment_def)
  qed
  have "map segmentText (Segments (compilePattern path)) = pathSegmentsOf path"
    by (simp add: compilePattern_def comp_def segmentText_compileSegment)
  then have D: ?D by (simp add: strings_Join_Split)
  have E: ?E by (rule strings_Trim_decomp)
  have F: ?F using strings_Trim_no_edge by blast
  have G: ?G
    by (simp add: compilePattern_def compileSegment_def strings_Trim_def strings_HasPrefix_def)
  from A B C D E F G show ?thesis by blast
qed

text \<open>C5 at the template \<^verbatim>\<open>/users/:id/posts/:postId/\<close>.\<close>

theorem compilePattern_segments_witness:
  "length (Segments (compilePattern ''/users/:id/posts/:postId/'')) = 4 \<and>
   Segments (compilePattern ''/users/:id/posts/:postId/'') ! 3 =
     \<lparr>IsParam = True, Name = ''postId'', Value = []\<rparr> \<and>
   Segments (compilePattern ''/users/:id/posts/:postId/'') ! 2 =
     \<lparr>IsParam = False, Name = [], Value = ''posts''\<rparr> \<and>
   hd (strings_Trim ''/users/:id/posts/:postId/'' (CHR ''/'')) \<noteq> CHR ''/''"
proof -
  let ?p = "''/users/:id/posts/:postId/''"
  have ps: "pathSegmentsOf ?p = [''users'', '':id'', ''posts'', '':postId'']"
    by (simp add: strings_Trim_def)
  have ne: "strings_Trim ?p (CHR ''/'') \<noteq> []"
    by (simp add: strings_Trim_def)
  note t = compilePattern_segments[of ?p]
  from t have len: "length (Segments (compilePattern ?p)) = 4"
    by (simp add: ps)
  from t have "\<forall>i < length (pathSegmentsOf ?p).
      (\<forall>rest. pathSegmentsOf ?p ! i = CHR '':'' # rest \<longrightarrow>
         Segments (compilePattern ?p) ! i = \<lparr>IsParam = True, Name = rest, Value = []\<rparr>) \<and>
      ((\<forall>rest. pathSegmentsOf ?p ! i \<noteq> CHR '':'' # rest) \<longrightarrow>
         Segments (compilePattern ?p) ! i =
           \<lparr>IsParam = False, Name = [], Value = pathSegmentsOf ?p ! i\<rparr>)"
    by blast
  then have seg: "\<And>i. i < 4 \<Longrightarrow>
      (\<forall>rest. pathSegmentsOf ?p ! i = CHR '':'' # rest \<longrightarrow>
         Segments (compilePattern ?p) ! i = \<lparr>IsParam = True, Name = rest, Value = []\<rparr>) \<and>
      ((\<forall>rest. pathSegmentsOf ?p ! i \<noteq> CHR '':'' # rest) \<longrightarrow>
         Segments (compilePattern ?p) ! i =
           \<lparr>IsParam = False, Name = [], Value = pathSegmentsOf ?p ! i\<rparr>)"
    by (simp only: ps) simp
  from seg[of 3] have s3: "Segments (compilePattern ?p) ! 3 =
     \<lparr>IsParam = True, Name = ''postId'', Value = []\<rparr>"
    by (simp add: ps)
  from seg[of 2] have s2: "Segments (compilePattern ?p) ! 2 =
     \<lparr>IsParam = False, Name = [], Value = ''posts''\<rparr>"
    by (simp add: ps)
  from t ne have "hd (strings_Trim ?p (CHR ''/'')) \<noteq> CHR ''/''" by blast
  with len s3 s2 show ?thesis by blast
qed

section \<open>Facts about the WebSocket layer\<close>

lemma length_putUint32: "length (putUint32 x) = 4"
  by (simp add: putUint32_def)

lemma length_sha1_Sum: "length (sha1_Sum msg) = 20"
  by (simp add: sha1_Sum_def sha1_digest_def length_putUint32 split: prod.splits)

lemma length_EncodeToString: "length (EncodeToString enc bs) = 4 * ((length bs + 2) div 3)"
proof (induction enc bs rule: EncodeToString.induct)
  case (1 enc a b c rest)
  have "(length (a # b # c # rest) + 2) div 3 = Suc ((length rest + 2) div 3)" by simp
  with 1 show ?case by (simp add: sextets_def)
qed (simp_all add: sextets_def)

lemma sha1_rounds_step:
  "0 < n \<Longrightarrow> sha1_rounds n t w (a, b, c, d, e) =
     sha1_rounds (n - 1) (t + 1)
       (tl w @ [rotl 1 (w ! 13 XOR w ! 8 XOR w ! 2 XOR w ! 0)])
       (rotl 5 a + sha1_f t b c d + e + hd w + sha1_k t, a, rotl 30 b, c, d)"
  by (cases n) simp_all

lemma sha1_blocks_two:
  "sha1_blocks 2 s bs = sha1_block (sha1_block s (take 64 bs)) (take 64 (drop 64 bs))"
  by (simp add: numeral_2_eq_2)

lemma replicate_step: "0 < n \<Longrightarrow> replicate n x = x # replicate (n - 1) x"
  by (cases n) simp_all

lemma vector_bytes:
  "bytes_of (''dGhlIHNhbXBsZSBub25jZQ=='' @ websocketMagicString) = vector_message"
  by (simp add: bytes_of_def websocketMagicString_def vector_message_def)

lemma vector_length: "length vector_message = 60"
  by (simp add: vector_message_def)

lemma vector_pad:
  "sha1_pad vector_message =
     vector_message @ 128 # replicate 59 0 @ [0, 0, 0, 0, 0, 0, 1, 224]"
  by (simp add: sha1_pad_def vector_length putUint64_def)

lemma vector_pad_length: "length (sha1_pad vector_message) div 64 = 2"
  by (simp add: vector_pad vector_length)

lemma vector_block1:
  "words_of (take 64 (sha1_pad vector_message)) =
     [1682401388, 1229475432, 1649951347, 1515405941, 1647457642, 1515273533,
      842348613, 1095123253, 759511345, 875377719, 1145122105, 893600045,
      1127563586, 809780024, 893530417, 2147483648]"
  unfolding vector_pad by (simp add: vector_message_def be32_def replicate_step)

lemma vector_block2:
  "words_of (take 64 (drop 64 (sha1_pad vector_message))) =
     [0, 0, 0, 0, 0, 0, 0, 0, 0, 0, 0, 0, 0, 0, 0, 480]"
  unfolding vector_pad by (simp add: vector_message_def be32_def replicate_step)

lemma vector_rounds1:
  "sha1_rounds 80 0
     [1682401388, 1229475432, 1649951347, 1515405941, 1647457642, 1515273533,
      842348613, 1095123253, 759511345, 875377719, 1145122105, 893600045,
      1127563586, 809780024, 893530417, 2147483648] sha1_init =
   (4102706214, 2203686369, 633413371, 1246086146, 2591277810)"
  by (simp add: sha1_init_def sha1_rounds_step sha1_f_def sha1_k_def rotl_def)

lemma vector_rounds2:
  "sha1_rounds 80 0 [0, 0, 0, 0, 0, 0, 0, 0, 0, 0, 0, 0, 0, 0, 0, 480]
     (1540323111, 1931952490, 3195796473, 1517820024, 1581688034) =
   (1470814213, 1295715756, 3531229709, 1958756557, 1417158664)"
  by (simp add: sha1_rounds_step sha1_f_def sha1_k_def rotl_def)

lemma vector_state1:
  "sha1_block sha1_init (take 64 (sha1_pad vector_message)) =
     (1540323111, 1931952490, 3195796473, 1517820024, 1581688034)"
  unfolding sha1_block_def vector_block1
  by (simp add: vector_rounds1) (simp add: sha1_init_def)

lemma vector_state2:
  "sha1_block (1540323111, 1931952490, 3195796473, 1517820024, 1581688034)
     (take 64 (drop 64 (sha1_pad vector_message))) =
     (3011137324, 3227668246, 2432058886, 3476576581, 2998846698)"
  unfolding sha1_block_def vector_block2
  by (simp add: vector_rounds2)

lemma vector_sum:
  "sha1_Sum vector_message =
     [179, 122, 79, 44, 192, 98, 79, 22, 144, 246, 70, 6, 207, 56, 89, 69, 178,
      190, 196, 234]"
  unfolding sha1_Sum_def vector_pad_length sha1_blocks_two vector_state1 vector_state2
  by (simp add: sha1_digest_def putUint32_def)

lemma vector_base64:
  "EncodeToString encodeStd
     [179, 122, 79, 44, 192, 98, 79, 22, 144, 246, 70, 6, 207, 56, 89, 69, 178,
      190, 196, 234] = ''s3pPLMBiTxaQ9kYGzzhZRbK+xOo=''"
  by (simp add: sextets_def encodeStd_def)

text \<open>
  C7.  For every key, \<^verbatim>\<open>calculateAcceptKey\<close> is the Base64 encoding (standard
  alphabet, padded) of the SHA-1 digest of the key followed by the GUID
  \<^verbatim>\<open>258EAFA5-E914-47DA-95CA-C5AB0DC85B11\<close>, which is always 28 characters long; for the
  key \<^verbatim>\<open>dGhlIHNhbXBsZSBub25jZQ==\<close> it is \<^verbatim>\<open>s3pPLMBiTxaQ9kYGzzhZRbK+xOo=\<close>.
\<close>

theorem calculateAcceptKey_vector:
  "calculateAcceptKey key =
     EncodeToString encodeStd (sha1_Sum (bytes_of (key @ ''258EAFA5-E914-47DA-95CA-C5AB0DC85B11''))) \<and>
   length (calculateAcceptKey key) = 28 \<and>
   calculateAcceptKey ''dGhlIHNhbXBsZSBub25jZQ=='' = ''s3pPLMBiTxaQ9kYGzzhZRbK+xOo=''"
proof -
  have "calculateAcceptKey ''dGhlIHNhbXBsZSBub25jZQ=='' = ''s3pPLMBiTxaQ9kYGzzhZRbK+xOo=''"
    unfolding calculateAcceptKey_def vector_bytes vector_sum by (rule vector_base64)
  moreover have "length (calculateAcceptKey key) = 28"
    by (simp add: calculateAcceptKey_def length_EncodeToString length_sha1_Sum)
  ultimately show ?thesis
    by (simp add: calculateAcceptKey_def websocketMagicString_def)
qed

text \<open>C7 at the key of RFC 6455.\<close>

theorem calculateAcceptKey_vector_witness:
  "length (calculateAcceptKey ''dGhlIHNhbXBsZSBub25jZQ=='') = 28 \<and>
   EncodeToString encodeStd
     (sha1_Sum (bytes_of (''dGhlIHNhbXBsZSBub25jZQ=='' @ ''258EAFA5-E914-47DA-95CA-C5AB0DC85B11''))) =
     ''s3pPLMBiTxaQ9kYGzzhZRbK+xOo=''"
  using calculateAcceptKey_vector[of "''dGhlIHNhbXBsZSBub25jZQ==''"] by metis

lemma and_255_nat: "(n::nat) AND 0xFF = n mod 256"
proof -
  have "n AND mask 8 = take_bit 8 n" by (simp add: take_bit_eq_mask)
  then show ?thesis by (simp add: mask_eq_exp_minus_1 take_bit_eq_mod)
qed

lemma unat_of_nat_byte: "n < 256 \<Longrightarrow> unat (of_nat n :: byte) = n"
  by (simp add: unat_of_nat)

lemma and_exp_small: "(n::nat) < 2 ^ k \<Longrightarrow> n AND 2 ^ k = 0"
  by (simp add: and_exp_eq_0_iff_not_bit bit_iff_odd)

text \<open>
  C9.  For every payload the frame of \<^verbatim>\<open>WriteMessage\<close> starts with the byte
  \<^verbatim>\<open>0x81\<close>.  A payload of fewer than 126 bytes has its length as the second byte; one
  of at least 126 and fewer than 65536 bytes has the marker 126 and then its length as a
  16-bit big-endian integer.  The mask bit of the second byte is never set, the frame
  ends with the payload unchanged, and the frame goes to the connection in one write
  (which fails on a broken connection).
\<close>

theorem WriteMessage_frame:
  "messageFrame payload ! 0 = 0x81 \<and>
   (length payload < 126 \<longrightarrow>
      messageFrame payload = [0x81, of_nat (length payload)] @ payload \<and>
      unat (messageFrame payload ! 1) = length payload) \<and>
   (126 \<le> length payload \<and> length payload < 65536 \<longrightarrow>
      take 2 (messageFrame payload) = [0x81, 126] \<and>
      256 * unat (messageFrame payload ! 2) + unat (messageFrame payload ! 3) = length payload \<and>
      drop 4 (messageFrame payload) = payload) \<and>
   messageFrame payload ! 1 AND 0x80 = 0 \<and>
   drop (length (messageFrame payload) - length payload) (messageFrame payload) = payload \<and>
   (\<not> broken (conn ws) \<longrightarrow>
      WriteMessage ws payload =
        (ws\<lparr>conn := (conn ws)\<lparr>sent := sent (conn ws) @ messageFrame payload\<rparr>\<rparr>, None)) \<and>
   (broken (conn ws) \<longrightarrow> WriteMessage ws payload = (ws, Some WriteFailed))"
  (is "?A \<and> ?B \<and> ?C \<and> ?D \<and> ?E \<and> ?F \<and> ?G")
proof -
  have A: ?A by (simp add: messageFrame_def)
  have B: ?B by (simp add: messageFrame_def unat_of_nat_byte)
  have C: ?C
  proof
    assume h: "126 \<le> length payload \<and> length payload < 65536"
    then have hi: "length payload div 256 < 256" by auto
    have lo: "length payload mod 256 < 256" by simp
    from h have f: "messageFrame payload =
        [0x81, 126, of_nat (length payload div 256), of_nat (length payload mod 256)] @ payload"
      by (simp add: messageFrame_def drop_bit_eq_div and_255_nat)
    have "256 * unat (of_nat (length payload div 256) :: byte) +
        unat (of_nat (length payload mod 256) :: byte) = length payload"
      unfolding unat_of_nat_byte[OF hi] unat_of_nat_byte[OF lo] by simp
    with f show "take 2 (messageFrame payload) = [0x81, 126] \<and>
      256 * unat (messageFrame payload ! 2) + unat (messageFrame payload ! 3) = length payload \<and>
      drop 4 (messageFrame payload) = payload"
      by (simp add: numeral_3_eq_3 numeral_2_eq_2)
  qed
  have D: ?D
  proof (cases "length payload < 126")
    case True
    then have "length payload < 2 ^ 7" by simp
    then have "length payload AND 2 ^ 7 = 0" by (rule and_exp_small)
    then have "(of_nat (length payload AND 2 ^ 7) :: byte) = 0" by simp
    then have "(of_nat (length payload) :: byte) AND 0x80 = 0"
      by (simp add: of_nat_and_eq)
    with True show ?thesis by (simp add: messageFrame_def)
  next
    case False
    then show ?thesis by (simp add: messageFrame_def)
  qed
  have E: ?E by (simp add: messageFrame_def)
  have F: ?F by (simp add: WriteMessage_def conn_Write_def)
  have G: ?G by (simp add: WriteMessage_def conn_Write_def)
  from A B C D E F G show ?thesis by blast
qed

text \<open>C9 at a payload of two bytes and at one of 300 bytes, on a working connection.\<close>

theorem WriteMessage_frame_witness:
  "messageFrame [104, 105] = [0x81, 2, 104, 105] \<and>
   take 2 (messageFrame (replicate 300 7)) = [0x81, 126] \<and>
   256 * unat (messageFrame (replicate 300 7) ! 2) + unat (messageFrame (replicate 300 7) ! 3) = 300 \<and>
   WriteMessage \<lparr>conn = \<lparr>sent = [], broken = False\<rparr>\<rparr> [104, 105] =
     (\<lparr>conn = \<lparr>sent = [0x81, 2, 104, 105], broken = False\<rparr>\<rparr>, None)"
proof -
  note small = WriteMessage_frame[of "[104, 105]" "\<lparr>conn = \<lparr>sent = [], broken = False\<rparr>\<rparr>"]
  from small have f: "messageFrame [104, 105] = [0x81, 2, 104, 105]" by simp
  from small have w: "WriteMessage \<lparr>conn = \<lparr>sent = [], broken = False\<rparr>\<rparr> [104, 105] =
     (\<lparr>conn = \<lparr>sent = [0x81, 2, 104, 105], broken = False\<rparr>\<rparr>, None)"
    unfolding f by simp
  have len: "length (replicate 300 (7::byte)) = 300" by simp
  from WriteMessage_frame[of "replicate 300 7" "\<lparr>conn = \<lparr>sent = [], broken = False\<rparr>\<rparr>"]
  have "126 \<le> length (replicate 300 (7::byte)) \<and> length (replicate 300 (7::byte)) < 65536 \<longrightarrow>
      take 2 (messageFrame (replicate 300 7)) = [0x81, 126] \<and>
      256 * unat (messageFrame (replicate 300 7) ! 2) + unat (messageFrame (replicate 300 7) ! 3) =
        length (replicate 300 (7::byte)) \<and>
      drop 4 (messageFrame (replicate 300 7)) = replicate 300 7"
    by blast
  then have "take 2 (messageFrame (replicate 300 7)) = [0x81, 126] \<and>
      256 * unat (messageFrame (replicate 300 7) ! 2) + unat (messageFrame (replicate 300 7) ! 3) = 300"
    unfolding len by simp
  with f w show ?thesis by blast
qed

section \<open>Facts about sessions\<close>


























section \<open>Facts about the request context\<close>

lemma WriteHeader_fresh:
  "\<not> wroteHeader w \<Longrightarrow> 200 \<le> code \<Longrightarrow> code \<le> 999 \<Longrightarrow>
   WriteHeader w code = Some (w\<lparr>wroteHeader := True, status := code, sentHeader := Header_w w\<rparr>)"
  by (simp add: WriteHeader_def)

lemma Write_effect:
  "Write w bs = (w', err) \<Longrightarrow>
   Header_w w' = Header_w w \<and> wroteHeader w' \<and> informational w' = informational w \<and>
   status w' = (if wroteHeader w then status w else 200) \<and>
   sentHeader w' = (if wroteHeader w then sentHeader w else Header_w w) \<and>
   (if bs \<noteq> [] \<and> \<not> bodyAllowedForStatus (status w')
    then err = Some ErrBodyNotAllowed \<and> body w' = body w
    else err = None \<and> body w' = body w @ bs)"
  by (auto simp: Write_def Let_def split: if_splits)

lemma beginResponse_Returns:
  "beginResponse c ct = Returns c' \<Longrightarrow>
   written c' \<and> Request c' = Request c \<and> statusCode c' = statusCode c \<and>
   Header_w (Response c') = Header_Set (Header_w (Response c)) ''Content-Type'' ct \<and>
   body (Response c') = body (Response c)"
  by (auto simp: beginResponse_def Let_def WriteHeader_def split: if_splits option.splits)

lemma beginResponse_Panics:
  "beginResponse c ct = Panics c' \<Longrightarrow> written c' = written c \<and> Request c' = Request c"
  by (auto simp: beginResponse_def Let_def split: if_splits option.splits)

lemma beginResponse_200:
  "statusCode c = 200 \<Longrightarrow>
   beginResponse c ct =
     Returns (c\<lparr>Response := (Response c)\<lparr>Header_w :=
                   Header_Set (Header_w (Response c)) ''Content-Type'' ct\<rparr>, written := True\<rparr>)"
  by (simp add: beginResponse_def Let_def)

lemma sendJSON_Returns:
  "sendJSON env c v = Returns (e, c') \<Longrightarrow> written c' \<and> Request c' = Request c"
  by (auto simp: sendJSON_def split: outcome.splits option.splits prod.splits
      dest: beginResponse_Returns)

lemma sendJSON_Panics:
  "sendJSON env c v = Panics (e, c') \<Longrightarrow> written c' = written c \<and> Request c' = Request c"
  by (auto simp: sendJSON_def split: outcome.splits option.splits prod.splits
      dest: beginResponse_Panics)

lemma sends_shape: "requestShape r = requestShape r' \<Longrightarrow> sends env r op = sends env r' op"
  by (cases op) (auto simp: requestShape_def responseMode_def upgradeRefused_def)

lemma Context_JSON_response:
  "responseMode (Request c) \<Longrightarrow>
   Context_JSON env c v =
     (case sendJSON env c v of
        Panics (e, c') \<Rightarrow> Panics (e, v, c')
      | Returns (e, c') \<Rightarrow> Returns (e, v, c'))"
  by (simp add: Context_JSON_def responseMode_def)

lemma Context_JSON_decode:
  "\<not> responseMode (Request c) \<Longrightarrow>
   Context_JSON env c v =
     Returns
       (case v of
          StringMap m \<Rightarrow> Some DecodeError
        | Opaque x \<Rightarrow> (case unmarshal env (Body (Request c)) x of None \<Rightarrow> Some DecodeError | Some x' \<Rightarrow> None),
        case v of
          StringMap m \<Rightarrow> v
        | Opaque x \<Rightarrow> (case unmarshal env (Body (Request c)) x of None \<Rightarrow> v | Some x' \<Rightarrow> Opaque x'),
        c\<lparr>Request := (Request c)\<lparr>Body := decodeRest env (Body (Request c))\<rparr>\<rparr>)"
  by (simp add: Context_JSON_def responseMode_def Let_def split: anyval.splits option.splits)

lemma Context_JSON_Returns:
  "Context_JSON env c v = Returns (e, v', c') \<Longrightarrow>
   requestShape (Request c') = requestShape (Request c) \<and>
   written c' = (written c \<or> responseMode (Request c))"
proof (cases "responseMode (Request c)")
  case True
  assume "Context_JSON env c v = Returns (e, v', c')"
  with True have "sendJSON env c v = Returns (e, c')"
    by (auto simp: Context_JSON_response split: outcome.splits)
  from sendJSON_Returns[OF this] True show ?thesis by simp
next
  case False
  assume "Context_JSON env c v = Returns (e, v', c')"
  with False show ?thesis
    by (auto simp: Context_JSON_decode requestShape_def)
qed

lemma Context_JSON_Panics:
  "Context_JSON env c v = Panics (e, v', c') \<Longrightarrow>
   requestShape (Request c') = requestShape (Request c) \<and> written c' = written c"
proof (cases "responseMode (Request c)")
  case True
  assume "Context_JSON env c v = Panics (e, v', c')"
  with True have "sendJSON env c v = Panics (e, c')"
    by (auto simp: Context_JSON_response split: outcome.splits)
  from sendJSON_Panics[OF this] show ?thesis by simp
next
  case False
  assume "Context_JSON env c v = Panics (e, v', c')"
  with False show ?thesis by (simp add: Context_JSON_decode)
qed

lemma Context_String_effect:
  "(Context_String c s = Returns c' \<longrightarrow> written c' \<and> Request c' = Request c) \<and>
   (Context_String c s = Panics c' \<longrightarrow> written c' = written c \<and> Request c' = Request c)"
  by (auto simp: Context_String_def split: outcome.splits
      dest: beginResponse_Returns beginResponse_Panics)

lemma Context_HTML_effect:
  "(Context_HTML c s = Returns c' \<longrightarrow> written c' \<and> Request c' = Request c) \<and>
   (Context_HTML c s = Panics c' \<longrightarrow> written c' = written c \<and> Request c' = Request c)"
  by (auto simp: Context_HTML_def split: outcome.splits
      dest: beginResponse_Returns beginResponse_Panics)

lemma Context_Render_effect:
  "(Context_Render env c n v = Returns (e, c') \<longrightarrow> written c' \<and> Request c' = Request c) \<and>
   (Context_Render env c n v = Panics (e, c') \<longrightarrow> written c' = written c \<and> Request c' = Request c)"
  by (auto simp: Context_Render_def split: outcome.splits if_splits prod.splits option.splits
      dest: beginResponse_Returns beginResponse_Panics)

lemma refuse_Returns:
  assumes "refuse env c code msg = Returns (e, c')"
  shows "requestShape (Request c') = requestShape (Request c) \<and>
         written c' = (written c \<or> responseMode (Request c))"
proof -
  from assms obtain e' v' where
    "Context_JSON env (Context_Status c code) (StringMap [(''error'', msg)]) = Returns (e', v', c')"
    by (auto simp: refuse_def split: outcome.splits)
  from Context_JSON_Returns[OF this] show ?thesis by (simp add: Context_Status_def)
qed

lemma refuse_Panics:
  assumes "refuse env c code msg = Panics (e, c')"
  shows "requestShape (Request c') = requestShape (Request c) \<and> written c' = written c"
proof -
  from assms obtain e' v' where
    "Context_JSON env (Context_Status c code) (StringMap [(''error'', msg)]) = Panics (e', v', c')"
    by (auto simp: refuse_def split: outcome.splits)
  from Context_JSON_Panics[OF this] show ?thesis by (simp add: Context_Status_def)
qed

lemma Context_Upgrade_cases:
  "(upgradeRefused env (Request c) \<and> (\<exists>code msg. Context_Upgrade env c = refuse env c code msg)) \<or>
   (\<not> upgradeRefused env (Request c) \<and> (\<exists>e. Context_Upgrade env c = Returns (e, c)))"
  by (cases "hijack env") (auto simp: Context_Upgrade_def upgradeRefused_def)

lemma Context_Upgrade_Returns:
  assumes "Context_Upgrade env c = Returns (e, c')"
  shows "requestShape (Request c') = requestShape (Request c) \<and>
      written c' = (written c \<or> (responseMode (Request c) \<and> upgradeRefused env (Request c)))"
proof (cases "upgradeRefused env (Request c)")
  case True
  with Context_Upgrade_cases[of env c] obtain code msg where
    "Context_Upgrade env c = refuse env c code msg" by blast
  with assms have "refuse env c code msg = Returns (e, c')" by simp
  from refuse_Returns[OF this] True show ?thesis by simp
next
  case False
  with Context_Upgrade_cases[of env c] obtain e' where
    "Context_Upgrade env c = Returns (e', c)" by blast
  with assms have "c' = c" by simp
  with False show ?thesis by simp
qed

lemma Context_Upgrade_Panics:
  assumes "Context_Upgrade env c = Panics (e, c')"
  shows "requestShape (Request c') = requestShape (Request c) \<and> written c' = written c"
proof (cases "upgradeRefused env (Request c)")
  case True
  with Context_Upgrade_cases[of env c] obtain code msg where
    "Context_Upgrade env c = refuse env c code msg" by blast
  with assms have "refuse env c code msg = Panics (e, c')" by simp
  from refuse_Panics[OF this] show ?thesis .
next
  case False
  with Context_Upgrade_cases[of env c] obtain e' where
    "Context_Upgrade env c = Returns (e', c)" by blast
  with assms show ?thesis by simp
qed

lemma third_Returns: "third x = Returns c \<Longrightarrow> \<exists>a b. x = Returns (a, b, c)"
  by (cases x rule: third.cases) simp_all

lemma third_Panics: "third x = Panics c \<Longrightarrow> \<exists>a b. x = Panics (a, b, c)"
  by (cases x rule: third.cases) simp_all

lemma second_Returns: "second x = Returns c \<Longrightarrow> \<exists>a. x = Returns (a, c)"
  by (cases x rule: second.cases) simp_all

lemma second_Panics: "second x = Panics c \<Longrightarrow> \<exists>a. x = Panics (a, c)"
  by (cases x rule: second.cases) simp_all

lemma step_Returns:
  assumes "step env op c = Returns c'"
  shows "requestShape (Request c') = requestShape (Request c) \<and>
         written c' = (written c \<or> sends env (Request c) op)"
proof (cases op)
  case (Op_JSON v)
  with assms obtain e v' where "Context_JSON env c v = Returns (e, v', c')"
    by (auto dest: third_Returns)
  from Context_JSON_Returns[OF this] Op_JSON show ?thesis by simp
next
  case (Op_sendJSON v)
  with assms obtain e where "sendJSON env c v = Returns (e, c')"
    by (auto dest: second_Returns)
  from sendJSON_Returns[OF this] Op_sendJSON show ?thesis by simp
next
  case (Op_String s)
  with assms Context_String_effect[of c s c'] show ?thesis by simp
next
  case (Op_HTML s)
  with assms Context_HTML_effect[of c s c'] show ?thesis by simp
next
  case (Op_Render n v)
  with assms obtain e where "Context_Render env c n v = Returns (e, c')"
    by (auto dest: second_Returns)
  with Context_Render_effect[of env c n v e c'] Op_Render show ?thesis by simp
next
  case (Op_File p)
  with assms show ?thesis by (auto simp: Context_File_def)
next
  case (Op_Redirect u)
  with assms show ?thesis by (auto simp: Context_Redirect_def)
next
  case (Op_Status code)
  with assms show ?thesis by (auto simp: Context_Status_def)
next
  case (Op_Header k v)
  with assms show ?thesis by (auto simp: Context_Header_def)
next
  case (Op_Cookie ck)
  with assms show ?thesis by (auto simp: Context_Cookie_def)
next
  case (Op_Set k v)
  with assms show ?thesis by (auto simp: Context_Set_def)
next
  case Op_Body
  with assms show ?thesis by (auto simp: Context_Body_def requestShape_def)
next
  case Op_Upgrade
  with assms obtain e where "Context_Upgrade env c = Returns (e, c')"
    by (auto dest: second_Returns)
  from Context_Upgrade_Returns[OF this] Op_Upgrade show ?thesis by simp
next
  case (Op_Validate v)
  with assms show ?thesis by auto
next
  case (Op_Read r)
  with assms show ?thesis by auto
qed

lemma step_Panics:
  assumes "step env op c = Panics c'"
  shows "requestShape (Request c') = requestShape (Request c) \<and> written c' = written c"
proof (cases op)
  case (Op_JSON v)
  with assms obtain e v' where "Context_JSON env c v = Panics (e, v', c')"
    by (auto dest: third_Panics)
  from Context_JSON_Panics[OF this] show ?thesis .
next
  case (Op_sendJSON v)
  with assms obtain e where "sendJSON env c v = Panics (e, c')"
    by (auto dest: second_Panics)
  from sendJSON_Panics[OF this] show ?thesis by simp
next
  case (Op_String s)
  with assms Context_String_effect[of c s c'] show ?thesis by simp
next
  case (Op_HTML s)
  with assms Context_HTML_effect[of c s c'] show ?thesis by simp
next
  case (Op_Render n v)
  with assms obtain e where "Context_Render env c n v = Panics (e, c')"
    by (auto dest: second_Panics)
  with Context_Render_effect[of env c n v e c'] show ?thesis by simp
next
  case Op_Upgrade
  with assms obtain e where "Context_Upgrade env c = Panics (e, c')"
    by (auto dest: second_Panics)
  from Context_Upgrade_Panics[OF this] show ?thesis .
qed (use assms in auto)

lemma run_written:
  "run env ops c = (fin, res) \<Longrightarrow>
   requestShape (Request (state_of res)) = requestShape (Request c) \<and>
   written (state_of res) = (written c \<or> (\<exists>op \<in> set fin. sends env (Request c) op))"
proof (induction ops arbitrary: c fin res)
  case Nil
  then show ?case by auto
next
  case (Cons op ops)
  show ?case
  proof (cases "step env op c")
    case (Panics c')
    with Cons.prems have "fin = []" "res = Panics c'" by simp_all
    with step_Panics[OF Panics] show ?thesis by simp
  next
    case (Returns c')
    obtain fin' res' where r: "run env ops c' = (fin', res')"
      by (cases "run env ops c'") auto
    with Cons.prems Returns have d: "fin = op # fin'" "res = res'" by simp_all
    from step_Returns[OF Returns]
    have shape: "requestShape (Request c') = requestShape (Request c)"
      and wr: "written c' = (written c \<or> sends env (Request c) op)" by blast+
    from Cons.IH[OF r]
    have shape': "requestShape (Request (state_of res')) = requestShape (Request c')"
      and wr': "written (state_of res') = (written c' \<or> (\<exists>op \<in> set fin'. sends env (Request c') op))"
      by blast+
    have "(\<exists>op \<in> set fin'. sends env (Request c') op) = (\<exists>op \<in> set fin'. sends env (Request c) op)"
      using sends_shape[OF shape] by blast
    with wr wr' have "written (state_of res') =
        (written c \<or> (\<exists>op \<in> set (op # fin'). sends env (Request c) op))"
      by auto
    moreover from shape shape'
    have "requestShape (Request (state_of res')) = requestShape (Request c)" by (rule trans[rotated])
    ultimately show ?thesis unfolding d by blast
  qed
qed


lemma NewContext_fresh:
  "\<not> written (fst (NewContext env random w r templ srv)) \<and>
   statusCode (fst (NewContext env random w r templ srv)) = 200 \<and>
   requestShape (Request (fst (NewContext env random w r templ srv))) = requestShape r"
  by (simp add: NewContext_def Let_def requestShape_def split: prod.splits)





lemma sends_iff:
  "sends env r op \<longleftrightarrow>
     (\<exists>v. op = Op_sendJSON v) \<or> (\<exists>v. op = Op_JSON v \<and> responseMode r) \<or>
     (\<exists>s. op = Op_String s) \<or> (\<exists>s. op = Op_HTML s) \<or> (\<exists>n v. op = Op_Render n v) \<or>
     (\<exists>p. op = Op_File p) \<or> (\<exists>u. op = Op_Redirect u) \<or>
     (op = Op_Upgrade \<and> responseMode r \<and> upgradeRefused env r)"
  by (cases op) simp_all

text \<open>
  C10.  A new context has its written flag false.  The response-sending operations are
  \<^verbatim>\<open>sendJSON\<close>, \<^verbatim>\<open>JSON\<close> as a response (also inside a refusal of
  \<^verbatim>\<open>Upgrade\<close>), \<^verbatim>\<open>String\<close>, \<^verbatim>\<open>HTML\<close>, \<^verbatim>\<open>Render\<close>, \<^verbatim>\<open>File\<close> and
  \<^verbatim>\<open>Redirect\<close>.  When one of them returns the flag is true; every other operation of
  the context, and every operation that panics, leaves the flag as it was.  So after any
  run of operations on a new context, as a handler makes it, the flag is true exactly if
  a response-sending operation has returned.
\<close>

theorem written_flag_invariant:
  "\<not> written (fst (NewContext env random w r templ srv)) \<and>
   (sends env r op \<longleftrightarrow>
      (\<exists>v. op = Op_sendJSON v) \<or> (\<exists>v. op = Op_JSON v \<and> responseMode r) \<or>
      (\<exists>s. op = Op_String s) \<or> (\<exists>s. op = Op_HTML s) \<or> (\<exists>n v. op = Op_Render n v) \<or>
      (\<exists>p. op = Op_File p) \<or> (\<exists>u. op = Op_Redirect u) \<or>
      (op = Op_Upgrade \<and> responseMode r \<and> upgradeRefused env r)) \<and>
   (step env op c = Returns c' \<longrightarrow> written c' = (written c \<or> sends env (Request c) op)) \<and>
   (step env op c = Panics c' \<longrightarrow> written c' = written c) \<and>
   (run env ops (fst (NewContext env random w r templ srv)) = (fin, res) \<longrightarrow>
      written (state_of res) = (\<exists>op \<in> set fin. sends env r op))"
  (is "?A \<and> ?B \<and> ?C \<and> ?D \<and> ?E")
proof -
  have A: ?A using NewContext_fresh[of env random w r templ srv] by simp
  have B: ?B by (rule sends_iff)
  have C: ?C using step_Returns[of env op c c'] by blast
  have D: ?D using step_Panics[of env op c c'] by blast
  have E: ?E
  proof
    let ?c0 = "fst (NewContext env random w r templ srv)"
    assume "run env ops ?c0 = (fin, res)"
    from run_written[OF this] A
    have "written (state_of res) = (\<exists>op \<in> set fin. sends env (Request ?c0) op)" by simp
    moreover have "requestShape (Request ?c0) = requestShape r"
      using NewContext_fresh[of env random w r templ srv] by simp
    then have "\<And>op. sends env (Request ?c0) op = sends env r op" by (rule sends_shape)
    ultimately show "written (state_of res) = (\<exists>op \<in> set fin. sends env r op)" by simp
  qed
  from A B C D E show ?thesis by blast
qed

lemma exampleContext_eq:
  "exampleContext m p b =
     \<lparr>Request = exampleRequest m p b, Response = newResponseWriter,
      hasTemplates = False, params = Map.empty, query = Map.empty, form = Map.empty, session = 0,
      data_ctx = Map.empty, written = False, statusCode = 200\<rparr>"
  by (simp add: exampleContext_def NewContext_def exampleEnv_def exampleRequest_def
      exampleServer_def NewSessionManager_def GetSession_def Request_Cookie_def Let_def)

text \<open>
  C10 on three handlers of a \<^verbatim>\<open>GET\<close> request: one that sends a text, one that sends
  nothing, and one whose \<^verbatim>\<open>String\<close> panics on the status code 20.
\<close>

theorem written_flag_invariant_witness:
  "written (state_of (snd (run exampleEnv [Op_Status 201, Op_Header ''X-A'' ''b'', Op_String ''hi'']
      (exampleContext ''GET'' ''/'' [])))) \<and>
   \<not> written (state_of (snd (run exampleEnv [Op_Status 201, Op_Set ''k'' (Some 1), Op_Read R_IP]
      (exampleContext ''GET'' ''/'' [])))) \<and>
   fst (run exampleEnv [Op_Status 20, Op_String ''hi''] (exampleContext ''GET'' ''/'' [])) =
     [Op_Status 20] \<and>
   \<not> written (state_of (snd (run exampleEnv [Op_Status 20, Op_String ''hi'']
      (exampleContext ''GET'' ''/'' []))))"
proof -
  let ?c0 = "exampleContext ''GET'' ''/'' []"
  let ?r = "exampleRequest ''GET'' ''/'' []"
  have c0: "?c0 = fst (NewContext exampleEnv [] newResponseWriter ?r False exampleServer)"
    by (simp add: exampleContext_def)
  have inv: "\<And>ops. written (state_of (snd (run exampleEnv ops ?c0))) =
      (\<exists>op \<in> set (fst (run exampleEnv ops ?c0)). sends exampleEnv ?r op)"
  proof -
    fix ops
    from written_flag_invariant[of exampleEnv "[]" newResponseWriter ?r False exampleServer
        "Op_Body" ?c0 ?c0 ops "fst (run exampleEnv ops ?c0)" "snd (run exampleEnv ops ?c0)"]
    show "written (state_of (snd (run exampleEnv ops ?c0))) =
      (\<exists>op \<in> set (fst (run exampleEnv ops ?c0)). sends exampleEnv ?r op)"
      unfolding c0[symmetric] by simp
  qed
  have f1: "fst (run exampleEnv [Op_Status 201, Op_Header ''X-A'' ''b'', Op_String ''hi''] ?c0) =
      [Op_Status 201, Op_Header ''X-A'' ''b'', Op_String ''hi'']"
    by (simp add: exampleContext_eq Context_Status_def Context_Header_def Context_String_def
        beginResponse_def WriteHeader_def newResponseWriter_def Let_def split: prod.splits)
  have f2: "fst (run exampleEnv [Op_Status 201, Op_Set ''k'' (Some 1), Op_Read R_IP] ?c0) =
      [Op_Status 201, Op_Set ''k'' (Some 1), Op_Read R_IP]"
    by (simp add: split: prod.splits)
  have f3: "fst (run exampleEnv [Op_Status 20, Op_String ''hi''] ?c0) = [Op_Status 20]"
    by (simp add: exampleContext_eq Context_Status_def Context_String_def
        beginResponse_def WriteHeader_def newResponseWriter_def Let_def split: prod.splits)
  from inv[of "[Op_Status 201, Op_Header ''X-A'' ''b'', Op_String ''hi'']"] f1
  have w1: "written (state_of (snd (run exampleEnv
      [Op_Status 201, Op_Header ''X-A'' ''b'', Op_String ''hi''] ?c0)))" by simp
  from inv[of "[Op_Status 201, Op_Set ''k'' (Some 1), Op_Read R_IP]"] f2
  have w2: "\<not> written (state_of (snd (run exampleEnv
      [Op_Status 201, Op_Set ''k'' (Some 1), Op_Read R_IP] ?c0)))" by simp
  from inv[of "[Op_Status 20, Op_String ''hi'']"] f3
  have w3: "\<not> written (state_of (snd (run exampleEnv [Op_Status 20, Op_String ''hi''] ?c0)))"
    by simp
  from w1 w2 f3 w3 show ?thesis by blast
qed

section \<open>Facts about the application\<close>

lemma runMiddleware_shape:
  "runMiddleware mws i s = (evs, res) \<Longrightarrow>
   \<exists>k \<le> length mws.
     (k = length mws \<and> evs = map (\<lambda>j. CalledMiddleware j True) [i..<i + k] \<and>
        (\<exists>s'. res = Returns (True, s'))) \<or>
     (k < length mws \<and>
        evs = map (\<lambda>j. CalledMiddleware j True) [i..<i + k] @ [CalledMiddleware (i + k) False] \<and>
        (\<exists>s'. res = Returns (False, s'))) \<or>
     (k < length mws \<and>
        evs = map (\<lambda>j. CalledMiddleware j True) [i..<i + k] @ [PanickedMiddleware (i + k)] \<and>
        (\<exists>b s'. res = Panics (b, s')))"
proof (induction mws arbitrary: i s evs res)
  case Nil
  then show ?case by auto
next
  case (Cons mw mws)
  show ?case
  proof (cases "mw s")
    case (Panics x)
    obtain b s' where x: "x = (b, s')" by (cases x)
    with Panics Cons.prems have "evs = [PanickedMiddleware i]" "res = Panics (b, s')" by simp_all
    then have "0 < length (mw # mws) \<and>
        evs = map (\<lambda>j. CalledMiddleware j True) [i..<i + 0] @ [PanickedMiddleware (i + 0)] \<and>
        (\<exists>b s'. res = Panics (b, s'))" by simp
    then show ?thesis by blast
  next
    case (Returns x)
    obtain b s' where x: "x = (b, s')" by (cases x)
    show ?thesis
    proof (cases b)
      case False
      with Returns x Cons.prems have "evs = [CalledMiddleware i False]" "res = Returns (False, s')"
        by simp_all
      then have "0 < length (mw # mws) \<and>
          evs = map (\<lambda>j. CalledMiddleware j True) [i..<i + 0] @ [CalledMiddleware (i + 0) False] \<and>
          (\<exists>s'. res = Returns (False, s'))" by simp
      then show ?thesis by blast
    next
      case True
      obtain evs' res' where r: "runMiddleware mws (Suc i) s' = (evs', res')"
        by (cases "runMiddleware mws (Suc i) s'") auto
      with Returns x True Cons.prems have e: "evs = CalledMiddleware i True # evs'" "res = res'"
        by simp_all
      from Cons.IH[OF r] obtain k where k: "k \<le> length mws" and
        d: "(k = length mws \<and> evs' = map (\<lambda>j. CalledMiddleware j True) [Suc i..<Suc i + k] \<and>
              (\<exists>s'. res' = Returns (True, s'))) \<or>
            (k < length mws \<and>
              evs' = map (\<lambda>j. CalledMiddleware j True) [Suc i..<Suc i + k] @
                [CalledMiddleware (Suc i + k) False] \<and>
              (\<exists>s'. res' = Returns (False, s'))) \<or>
            (k < length mws \<and>
              evs' = map (\<lambda>j. CalledMiddleware j True) [Suc i..<Suc i + k] @
                [PanickedMiddleware (Suc i + k)] \<and>
              (\<exists>b s'. res' = Panics (b, s')))"
        by blast
      have u: "[i..<i + Suc k] = i # [Suc i..<Suc i + k]"
        by (simp add: upt_conv_Cons)
      from d e have "(Suc k = length (mw # mws) \<and>
              evs = map (\<lambda>j. CalledMiddleware j True) [i..<i + Suc k] \<and>
              (\<exists>s'. res = Returns (True, s'))) \<or>
            (Suc k < length (mw # mws) \<and>
              evs = map (\<lambda>j. CalledMiddleware j True) [i..<i + Suc k] @
                [CalledMiddleware (i + Suc k) False] \<and>
              (\<exists>s'. res = Returns (False, s'))) \<or>
            (Suc k < length (mw # mws) \<and>
              evs = map (\<lambda>j. CalledMiddleware j True) [i..<i + Suc k] @
                [PanickedMiddleware (i + Suc k)] \<and>
              (\<exists>b s'. res = Panics (b, s')))"
        unfolding u by auto
      moreover from k have "Suc k \<le> length (mw # mws)" by simp
      ultimately show ?thesis by blast
    qed
  qed
qed

lemma runMiddleware_returned:
  "runMiddleware mws i s = (evs, res) \<Longrightarrow> CalledMiddleware j b \<in> set evs \<Longrightarrow>
   i \<le> j \<and> j < i + length mws \<and> (\<exists>t t'. (mws ! (j - i)) t = Returns (b, t'))"
proof (induction mws arbitrary: i s evs res)
  case Nil
  then show ?case by simp
next
  case (Cons mw mws)
  show ?case
  proof (cases "mw s")
    case (Panics x)
    with Cons.prems show ?thesis by (cases x) auto
  next
    case (Returns x)
    obtain c s' where x: "x = (c, s')" by (cases x)
    show ?thesis
    proof (cases c)
      case False
      with Returns x Cons.prems have jb: "j = i" "b = False" by auto
      from Returns x False have "((mw # mws) ! (i - i)) s = Returns (False, s')" by simp
      then have "\<exists>t t'. ((mw # mws) ! (i - i)) t = Returns (False, t')" by blast
      with jb show ?thesis by simp
    next
      case True
      obtain evs' res' where r: "runMiddleware mws (Suc i) s' = (evs', res')"
        by (cases "runMiddleware mws (Suc i) s'") auto
      with Returns x True Cons.prems(1) have e: "evs = CalledMiddleware i True # evs'"
        by simp
      show ?thesis
      proof (cases "CalledMiddleware j b \<in> set evs'")
        case True
        from Cons.IH[OF r True]
        have "Suc i \<le> j" "j < Suc i + length mws" "\<exists>t t'. (mws ! (j - Suc i)) t = Returns (b, t')"
          by blast+
        moreover from \<open>Suc i \<le> j\<close> have "(mw # mws) ! (j - i) = mws ! (j - Suc i)"
          by (simp add: nth_Cons' Suc_diff_le)
        ultimately show ?thesis by auto
      next
        case False
        with Cons.prems(2) e have jb: "j = i" "b = True" by auto
        from Returns x \<open>c\<close> have "((mw # mws) ! (i - i)) s = Returns (True, s')" by simp
        then have "\<exists>t t'. ((mw # mws) ! (i - i)) t = Returns (True, t')" by blast
        with jb show ?thesis by simp
      qed
    qed
  qed
qed

lemma callHandler_events:
  "(events (callHandler env h s) = [CalledHandler] \<and> (\<exists>t. h s = Returns t)) \<or>
   (events (callHandler env h s) = [PanickedHandler, LoggedPanic] \<and> (\<exists>t. h s = Panics t))"
  by (cases "h s") (auto simp: callHandler_def split: outcome.splits)

text \<open>
  C2 (amended).  A request that the static-file check answers runs no middleware and no
  handler.  For every other request the middleware are called in registration order, each
  at most once, up to and including the first that returns false or panics: the calls are
  those of positions \<open>0\<close> to \<open>k - 1\<close>, all returning true, followed by nothing else
  but (a) the call of position \<open>k\<close> returning false, or (b) its panic, or, when all
  have returned true, (c) nothing, if no route matches, or (d) exactly one call of the
  matched handler.
\<close>

theorem middleware_pipeline:
  "(\<forall>f. staticHit env (static a) r = Some f \<longrightarrow>
      events (ServeHTTP env a random w r srv) = [ServedStatic f]) \<and>
   (staticHit env (static a) r = None \<longrightarrow>
      (\<exists>k \<le> length (middleware a).
         (k < length (middleware a) \<and>
            events (ServeHTTP env a random w r srv) =
              map (\<lambda>j. CalledMiddleware j True) [0..<k] @ [CalledMiddleware k False]) \<or>
         (k < length (middleware a) \<and>
            events (ServeHTTP env a random w r srv) =
              map (\<lambda>j. CalledMiddleware j True) [0..<k] @ [PanickedMiddleware k]) \<or>
         (k = length (middleware a) \<and>
            fst (Match (router a) (Method_req r) (URL_Path r)) = None \<and>
            events (ServeHTTP env a random w r srv) = map (\<lambda>j. CalledMiddleware j True) [0..<k]) \<or>
         (k = length (middleware a) \<and>
            (\<exists>h. fst (Match (router a) (Method_req r) (URL_Path r)) = Some h \<and>
               ((events (ServeHTTP env a random w r srv) =
                   map (\<lambda>j. CalledMiddleware j True) [0..<k] @ [CalledHandler] \<and>
                 (\<exists>t t'. h t = Returns t')) \<or>
                (events (ServeHTTP env a random w r srv) =
                   map (\<lambda>j. CalledMiddleware j True) [0..<k] @ [PanickedHandler, LoggedPanic] \<and>
                 (\<exists>t t'. h t = Panics t')))))) \<and>
      (\<forall>j b. CalledMiddleware j b \<in> set (events (ServeHTTP env a random w r srv)) \<longrightarrow>
         j < length (middleware a) \<and> (\<exists>t t'. (middleware a ! j) t = Returns (b, t'))))"
  (is "?S \<and> (?N \<longrightarrow> ?K \<and> ?L)")
proof (intro conjI impI)
  show ?S by (simp add: ServeHTTP_def Let_def)
next
  assume n: ?N
  let ?s0 = "NewContext env random w r (templates a) srv"
  let ?ev = "events (ServeHTTP env a random w r srv)"
  let ?pre = "\<lambda>k. map (\<lambda>j. CalledMiddleware j True) [0..<k]"
  obtain evs res where rm: "runMiddleware (middleware a) 0 ?s0 = (evs, res)"
    by (cases "runMiddleware (middleware a) 0 ?s0") auto
  from runMiddleware_shape[OF rm] obtain k where k: "k \<le> length (middleware a)" and
    d: "(k = length (middleware a) \<and> evs = ?pre k \<and> (\<exists>s'. res = Returns (True, s'))) \<or>
        (k < length (middleware a) \<and> evs = ?pre k @ [CalledMiddleware k False] \<and>
           (\<exists>s'. res = Returns (False, s'))) \<or>
        (k < length (middleware a) \<and> evs = ?pre k @ [PanickedMiddleware k] \<and>
           (\<exists>b s'. res = Panics (b, s')))"
    by auto
  obtain mh ps where m: "Match (router a) (Method_req r) (URL_Path r) = (mh, ps)"
    by (cases "Match (router a) (Method_req r) (URL_Path r)") auto
  have shape: "(k < length (middleware a) \<and> ?ev = ?pre k @ [CalledMiddleware k False]) \<or>
         (k < length (middleware a) \<and> ?ev = ?pre k @ [PanickedMiddleware k]) \<or>
         (k = length (middleware a) \<and>
            fst (Match (router a) (Method_req r) (URL_Path r)) = None \<and> ?ev = ?pre k) \<or>
         (k = length (middleware a) \<and>
            (\<exists>h. fst (Match (router a) (Method_req r) (URL_Path r)) = Some h \<and>
               ((?ev = ?pre k @ [CalledHandler] \<and> (\<exists>t t'. h t = Returns t')) \<or>
                (?ev = ?pre k @ [PanickedHandler, LoggedPanic] \<and> (\<exists>t t'. h t = Panics t')))))"
    and sub: "set ?ev \<subseteq> set evs \<union> {CalledHandler, PanickedHandler, LoggedPanic}"
  proof -
    from d consider
      (all) s' where "k = length (middleware a)" "evs = ?pre k" "res = Returns (True, s')" |
      (stop) s' where "k < length (middleware a)" "evs = ?pre k @ [CalledMiddleware k False]"
        "res = Returns (False, s')" |
      (panic) b s' where "k < length (middleware a)" "evs = ?pre k @ [PanickedMiddleware k]"
        "res = Panics (b, s')"
      by blast
    then have "((k < length (middleware a) \<and> ?ev = ?pre k @ [CalledMiddleware k False]) \<or>
         (k < length (middleware a) \<and> ?ev = ?pre k @ [PanickedMiddleware k]) \<or>
         (k = length (middleware a) \<and>
            fst (Match (router a) (Method_req r) (URL_Path r)) = None \<and> ?ev = ?pre k) \<or>
         (k = length (middleware a) \<and>
            (\<exists>h. fst (Match (router a) (Method_req r) (URL_Path r)) = Some h \<and>
               ((?ev = ?pre k @ [CalledHandler] \<and> (\<exists>t t'. h t = Returns t')) \<or>
                (?ev = ?pre k @ [PanickedHandler, LoggedPanic] \<and> (\<exists>t t'. h t = Panics t')))))) \<and>
       set ?ev \<subseteq> set evs \<union> {CalledHandler, PanickedHandler, LoggedPanic}"
    proof cases
      case all
      show ?thesis
      proof (cases mh)
        case None
        with all n rm m have "?ev = ?pre k"
          by (simp add: ServeHTTP_def Let_def split: outcome.splits)
        with all None m show ?thesis by auto
      next
        case (Some h)
        let ?s2 = "((fst s')\<lparr>params := (case ps of None \<Rightarrow> Map.empty | Some p \<Rightarrow> p)\<rparr>, snd s')"
        from all n rm m Some have e: "?ev = ?pre k @ events (callHandler env h ?s2)"
          by (simp add: ServeHTTP_def Let_def)
        from callHandler_events[of env h ?s2] e all Some m show ?thesis
          by auto
      qed
    next
      case stop
      with n rm have "?ev = ?pre k @ [CalledMiddleware k False]"
        by (simp add: ServeHTTP_def Let_def)
      with stop show ?thesis by auto
    next
      case panic
      with n rm have "?ev = ?pre k @ [PanickedMiddleware k]"
        by (simp add: ServeHTTP_def Let_def)
      with panic show ?thesis by auto
    qed
    then show "(k < length (middleware a) \<and> ?ev = ?pre k @ [CalledMiddleware k False]) \<or>
         (k < length (middleware a) \<and> ?ev = ?pre k @ [PanickedMiddleware k]) \<or>
         (k = length (middleware a) \<and>
            fst (Match (router a) (Method_req r) (URL_Path r)) = None \<and> ?ev = ?pre k) \<or>
         (k = length (middleware a) \<and>
            (\<exists>h. fst (Match (router a) (Method_req r) (URL_Path r)) = Some h \<and>
               ((?ev = ?pre k @ [CalledHandler] \<and> (\<exists>t t'. h t = Returns t')) \<or>
                (?ev = ?pre k @ [PanickedHandler, LoggedPanic] \<and> (\<exists>t t'. h t = Panics t')))))"
      and "set ?ev \<subseteq> set evs \<union> {CalledHandler, PanickedHandler, LoggedPanic}"
      by blast+
  qed
  from k shape show ?K by blast
  show ?L
  proof (intro allI impI)
    fix j b
    assume "CalledMiddleware j b \<in> set ?ev"
    with sub have "CalledMiddleware j b \<in> set evs" by auto
    from runMiddleware_returned[OF rm this]
    show "j < length (middleware a) \<and> (\<exists>t t'. (middleware a ! j) t = Returns (b, t'))"
      by simp
  qed
qed

lemmas serve_eval =
  ServeHTTP_def NewContext_def GetSession_def Request_Cookie_def staticHit_def
  exampleApp_def exampleEnv_def exampleRequest_def exampleServer_def NewSessionManager_def
  New_def Use_def Route_def Static_def Recovery_def passing_def stopping_def panicking_def
  panickingMiddleware_def handlerOf_def
  Match_def Add_def NewRouter_def compilePattern_def compileSegment_def strings_Trim_def
  strings_HasPrefix_def matchPattern_def
  callHandler_def respondError_def Context_JSON_def Context_Status_def Context_Header_def
  Context_String_def sendJSON_def beginResponse_def marshal_def WriteHeader_def Write_def
  newResponseWriter_def Header_Set_def CanonicalHeaderKey_def isTokenChar_def isUpper_def
  isLower_def isDigit_def toUpper_def toLower_def bytes_of_def Let_def

text \<open>
  C2 on two applications and the request \<^verbatim>\<open>GET /static/a.css\<close>, which no static
  directory answers: with the middleware \<^verbatim>\<open>Recovery\<close> and one that sets a header, both
  are called and then the handler, once; with a third middleware that returns false, the
  three are called in order and the handler is not.
\<close>

theorem middleware_pipeline_witness:
  "staticHit exampleEnv (static exampleApp) (exampleRequest ''GET'' ''/static/a.css'' []) = None \<and>
   events (ServeHTTP exampleEnv exampleApp [] newResponseWriter
     (exampleRequest ''GET'' ''/static/a.css'' []) exampleServer) =
     [CalledMiddleware 0 True, CalledMiddleware 1 True, CalledHandler] \<and>
   events (ServeHTTP exampleEnv (Use exampleApp stopping) [] newResponseWriter
     (exampleRequest ''GET'' ''/static/a.css'' []) exampleServer) =
     [CalledMiddleware 0 True, CalledMiddleware 1 True, CalledMiddleware 2 False] \<and>
   (\<exists>t t'. (middleware (Use exampleApp stopping) ! 2) t = Returns (False, t'))"
proof -
  let ?r = "exampleRequest ''GET'' ''/static/a.css'' []"
  let ?a = "Use exampleApp stopping"
  have n1: "staticHit exampleEnv (static exampleApp) ?r = None"
    by (simp add: serve_eval)
  have n2: "staticHit exampleEnv (static ?a) ?r = None"
    by (simp add: serve_eval)
  have e1: "events (ServeHTTP exampleEnv exampleApp [] newResponseWriter ?r exampleServer) =
     [CalledMiddleware 0 True, CalledMiddleware 1 True, CalledHandler]"
    by (simp add: serve_eval)
  have e2: "events (ServeHTTP exampleEnv ?a [] newResponseWriter ?r exampleServer) =
     [CalledMiddleware 0 True, CalledMiddleware 1 True, CalledMiddleware 2 False]"
    by (simp add: serve_eval)
  from middleware_pipeline[of exampleEnv ?a ?r "[]" newResponseWriter exampleServer] n2
  have "\<forall>j b. CalledMiddleware j b \<in> set (events (ServeHTTP exampleEnv ?a [] newResponseWriter ?r exampleServer)) \<longrightarrow>
         j < length (middleware ?a) \<and> (\<exists>t t'. (middleware ?a ! j) t = Returns (b, t'))"
    by blast
  then have "CalledMiddleware 2 False \<in> set (events (ServeHTTP exampleEnv ?a [] newResponseWriter ?r exampleServer)) \<longrightarrow>
         2 < length (middleware ?a) \<and> (\<exists>t t'. (middleware ?a ! 2) t = Returns (False, t'))"
    by blast
  then have "\<exists>t t'. (middleware ?a ! 2) t = Returns (False, t')"
    unfolding e2 by simp
  with n1 e1 e2 show ?thesis by blast
qed

text \<open>
  C2 as stated fails on a request that the static-file check answers.  The application
  has two middleware, which return true whenever they are called, a static directory for
  \<^verbatim>\<open>/static/\<close> and a route that matches \<^verbatim>\<open>GET /static/logo.png\<close>; the file exists.
  Serving the request calls no middleware and no handler.
\<close>

theorem middleware_static_counterexample:
  "length (middleware (Static exampleApp ''/static/'' ''public/'')) = 2 \<and>
   fst (Match (router (Static exampleApp ''/static/'' ''public/'')) ''GET'' ''/static/logo.png'') \<noteq> None \<and>
   events (ServeHTTP exampleEnv (Static exampleApp ''/static/'' ''public/'') [] newResponseWriter
     (exampleRequest ''GET'' ''/static/logo.png'' []) exampleServer) =
     [ServedStatic ''public/logo.png'']"
  by (simp add: serve_eval)

text \<open>
  C3 fails on the code in two ways.  A handler that panics on a \<^verbatim>\<open>POST\<close> request with
  a body is recovered and logged, but the recovery answers through the dual-mode
  \<^verbatim>\<open>JSON\<close>, which on such a request decodes instead of sending: the status code 500 is
  set in the context, and nothing is written.  The same handler on a request without a
  body gets the 500 response.  And a panic of a middleware is not intercepted at all,
  even behind the \<^verbatim>\<open>Recovery\<close> middleware: it leaves \<^verbatim>\<open>ServeHTTP\<close>, nothing is logged
  and nothing is written.
\<close>

theorem panic_recovery_evaluated:
  "events (ServeHTTP exampleEnv exampleApp [] newResponseWriter
     (exampleRequest ''POST'' ''/items'' [1, 2, 3]) exampleServer) =
     [CalledMiddleware 0 True, CalledMiddleware 1 True, PanickedHandler, LoggedPanic] \<and>
   \<not> written (fst (final (ServeHTTP exampleEnv exampleApp [] newResponseWriter
     (exampleRequest ''POST'' ''/items'' [1, 2, 3]) exampleServer))) \<and>
   statusCode (fst (final (ServeHTTP exampleEnv exampleApp [] newResponseWriter
     (exampleRequest ''POST'' ''/items'' [1, 2, 3]) exampleServer))) = 500 \<and>
   \<not> wroteHeader (Response (fst (final (ServeHTTP exampleEnv exampleApp [] newResponseWriter
     (exampleRequest ''POST'' ''/items'' [1, 2, 3]) exampleServer)))) \<and>
   body (Response (fst (final (ServeHTTP exampleEnv exampleApp [] newResponseWriter
     (exampleRequest ''POST'' ''/items'' [1, 2, 3]) exampleServer)))) = [] \<and>
   status (Response (fst (final (ServeHTTP exampleEnv exampleApp [] newResponseWriter
     (exampleRequest ''POST'' ''/items'' []) exampleServer)))) = 500 \<and>
   events (ServeHTTP exampleEnv (Use exampleApp panickingMiddleware) [] newResponseWriter
     (exampleRequest ''GET'' ''/static/a.css'' []) exampleServer) =
     [CalledMiddleware 0 True, CalledMiddleware 1 True, PanickedMiddleware 2] \<and>
   escaped (ServeHTTP exampleEnv (Use exampleApp panickingMiddleware) [] newResponseWriter
     (exampleRequest ''GET'' ''/static/a.css'' []) exampleServer) \<and>
   \<not> wroteHeader (Response (fst (final (ServeHTTP exampleEnv (Use exampleApp panickingMiddleware) []
     newResponseWriter (exampleRequest ''GET'' ''/static/a.css'' []) exampleServer))))"
  by (simp add: serve_eval)

section \<open>Facts about the rate limiter\<close>

lemma cleanUp_live:
  "cls ip = Some cl \<Longrightarrow> now \<le> reset cl \<Longrightarrow> cleanUp now cls ip = Some cl"
  by (simp add: cleanUp_def)

lemma cleanUp_None:
  "cleanUp now cls ip = None \<longleftrightarrow> cls ip = None \<or> (\<exists>cl. cls ip = Some cl \<and> reset cl < now)"
  by (auto simp: cleanUp_def split: option.splits)

lemma entryAt_live:
  "cls ip = Some cl \<Longrightarrow> now \<le> reset cl \<Longrightarrow> entryAt now cls ip = cl"
  by (simp add: entryAt_def cleanUp_live)

lemma entryAt_new:
  "cleanUp now cls ip = None \<Longrightarrow> entryAt now cls ip = \<lparr>requests = 0, reset = now + minute\<rparr>"
  by (simp add: entryAt_def)

lemma canonical_limit_keys:
  "CanonicalHeaderKey ''X-RateLimit-Limit'' = ''X-Ratelimit-Limit''"
  "CanonicalHeaderKey ''X-RateLimit-Remaining'' = ''X-Ratelimit-Remaining''"
  "CanonicalHeaderKey ''X-RateLimit-Reset'' = ''X-Ratelimit-Reset''"
  "CanonicalHeaderKey ''Content-Type'' = ''Content-Type''"
  "CanonicalHeaderKey ''Retry-After'' = ''Retry-After''"
  by code_simp+

lemma rateLimit_pass:
  assumes "requests (entryAt now cls (Context_IP c)) < n"
  shows "rateLimit env n now c cls =
     Returns (True,
       Context_Header
         (Context_Header (Context_Header c ''X-RateLimit-Limit'' (Itoa n))
            ''X-RateLimit-Remaining'' (Itoa (n - (requests (entryAt now cls (Context_IP c)) + 1))))
         ''X-RateLimit-Reset'' (Itoa (Unix (reset (entryAt now cls (Context_IP c))))),
       (cleanUp now cls)(Context_IP c \<mapsto>
          (entryAt now cls (Context_IP c))
            \<lparr>requests := requests (entryAt now cls (Context_IP c)) + 1\<rparr>))"
  using assms by (simp add: rateLimit_def entryAt_def Let_def)

lemma passed_headers:
  "Header_Get (Header_w (Response
     (Context_Header (Context_Header (Context_Header c ''X-RateLimit-Limit'' a)
        ''X-RateLimit-Remaining'' b) ''X-RateLimit-Reset'' d))) ''X-RateLimit-Limit'' = a \<and>
   Header_Get (Header_w (Response
     (Context_Header (Context_Header (Context_Header c ''X-RateLimit-Limit'' a)
        ''X-RateLimit-Remaining'' b) ''X-RateLimit-Reset'' d))) ''X-RateLimit-Remaining'' = b \<and>
   Header_Get (Header_w (Response
     (Context_Header (Context_Header (Context_Header c ''X-RateLimit-Limit'' a)
        ''X-RateLimit-Remaining'' b) ''X-RateLimit-Reset'' d))) ''X-RateLimit-Reset'' = d"
  by (simp add: Context_Header_def Header_Get_def Header_Set_def canonical_limit_keys)

lemma Context_JSON_429:
  "\<exists>e c'. Context_JSON env (Context_Status c 429) (StringMap m) = Returns (e, StringMap m, c') \<and>
     statusCode c' = 429 \<and>
     (\<forall>k. CanonicalHeaderKey k \<noteq> ''Content-Type'' \<longrightarrow>
        Header_Get (Header_w (Response c')) k = Header_Get (Header_w (Response c)) k) \<and>
     (\<not> responseMode (Request c) \<longrightarrow> Response c' = Response c \<and> written c' = written c) \<and>
     (responseMode (Request c) \<longrightarrow>
        written c' \<and>
        (\<not> wroteHeader (Response c) \<longrightarrow>
           body (Response c') = body (Response c) @ marshalMap env m @ [10] \<and>
           status (Response c') = 429 \<and>
           sentHeader (Response c') =
             Header_Set (Header_w (Response c)) ''Content-Type'' ''application/json''))"
proof (cases "responseMode (Request c)")
  case False
  then have "\<not> responseMode (Request (Context_Status c 429))" by (simp add: Context_Status_def)
  from Context_JSON_decode[OF this, of env "StringMap m"] False show ?thesis
    by (simp add: Context_Status_def)
next
  case True
  then have m: "responseMode (Request (Context_Status c 429))" by (simp add: Context_Status_def)
  let ?c1 = "(Context_Status c 429)\<lparr>Response := (Response c)\<lparr>Header_w :=
      Header_Set (Header_w (Response c)) ''Content-Type'' ''application/json''\<rparr>\<rparr>"
  obtain w' where w': "WriteHeader (Response ?c1) 429 = Some w'"
    by (cases "wroteHeader (Response c)") (simp_all add: WriteHeader_def Context_Status_def)
  then have b: "beginResponse (Context_Status c 429) ''application/json'' =
      Returns (?c1\<lparr>Response := w', written := True\<rparr>)"
    by (simp add: beginResponse_def Let_def Context_Status_def)
  obtain w3 err where wr: "Write w' (marshalMap env m @ [10]) = (w3, err)"
    by (cases "Write w' (marshalMap env m @ [10])") auto
  have s: "sendJSON env (Context_Status c 429) (StringMap m) =
      Returns (err, ?c1\<lparr>Response := w3, written := True\<rparr>)"
    by (simp add: sendJSON_def b marshal_def wr)
  from w' have wf: "Header_w w' = Header_Set (Header_w (Response c)) ''Content-Type'' ''application/json''"
    "body w' = body (Response c)"
    "\<not> wroteHeader (Response c) \<longrightarrow> wroteHeader w' \<and> status w' = 429 \<and>
       sentHeader w' = Header_Set (Header_w (Response c)) ''Content-Type'' ''application/json''"
    by (auto simp: WriteHeader_def Context_Status_def split: if_splits)
  from Write_effect[OF wr] wf
  have w3: "Header_w w3 = Header_Set (Header_w (Response c)) ''Content-Type'' ''application/json''"
    "\<not> wroteHeader (Response c) \<longrightarrow>
       body w3 = body (Response c) @ marshalMap env m @ [10] \<and> status w3 = 429 \<and>
       sentHeader w3 = Header_Set (Header_w (Response c)) ''Content-Type'' ''application/json''"
    by (auto simp: bodyAllowedForStatus_def split: if_splits)
  have hk: "\<forall>k. CanonicalHeaderKey k \<noteq> ''Content-Type'' \<longrightarrow>
      Header_Get (Header_Set (Header_w (Response c)) ''Content-Type'' ''application/json'') k =
      Header_Get (Header_w (Response c)) k"
    by (simp add: Header_Get_def Header_Set_def canonical_limit_keys)
  from s w3 hk True show ?thesis
    unfolding Context_JSON_response[OF m]
    by (auto simp: Context_Status_def)
qed

lemma rateLimit_refuse:
  assumes "n \<le> requests (entryAt now cls (Context_IP c))"
  shows "\<exists>c'. rateLimit env n now c cls =
       Returns (False, c', (cleanUp now cls)(Context_IP c \<mapsto> entryAt now cls (Context_IP c))) \<and>
     statusCode c' = 429 \<and>
     (\<forall>k. CanonicalHeaderKey k \<noteq> ''Content-Type'' \<longrightarrow>
        Header_Get (Header_w (Response c')) k = Header_Get (Header_w (Response c)) k) \<and>
     (\<not> responseMode (Request c) \<longrightarrow> Response c' = Response c \<and> written c' = written c) \<and>
     (responseMode (Request c) \<longrightarrow>
        written c' \<and>
        (\<not> wroteHeader (Response c) \<longrightarrow>
           body (Response c') =
             body (Response c) @ marshalMap env [(''error'', ''Rate limit exceeded'')] @ [10] \<and>
           status (Response c') = 429 \<and>
           sentHeader (Response c') =
             Header_Set (Header_w (Response c)) ''Content-Type'' ''application/json''))"
proof -
  from Context_JSON_429[of env c "[(''error'', ''Rate limit exceeded'')]"]
  obtain e c' where j: "Context_JSON env (Context_Status c 429)
        (StringMap [(''error'', ''Rate limit exceeded'')]) =
      Returns (e, StringMap [(''error'', ''Rate limit exceeded'')], c')"
    and p: "statusCode c' = 429 \<and>
     (\<forall>k. CanonicalHeaderKey k \<noteq> ''Content-Type'' \<longrightarrow>
        Header_Get (Header_w (Response c')) k = Header_Get (Header_w (Response c)) k) \<and>
     (\<not> responseMode (Request c) \<longrightarrow> Response c' = Response c \<and> written c' = written c) \<and>
     (responseMode (Request c) \<longrightarrow>
        written c' \<and>
        (\<not> wroteHeader (Response c) \<longrightarrow>
           body (Response c') =
             body (Response c) @ marshalMap env [(''error'', ''Rate limit exceeded'')] @ [10] \<and>
           status (Response c') = 429 \<and>
           sentHeader (Response c') =
             Header_Set (Header_w (Response c)) ''Content-Type'' ''application/json''))"
    by blast
  from assms j have "rateLimit env n now c cls =
       Returns (False, c', (cleanUp now cls)(Context_IP c \<mapsto> entryAt now cls (Context_IP c)))"
    by (simp add: rateLimit_def entryAt_def Let_def)
  with p show ?thesis by blast
qed

text \<open>What one request does to the entry of an address whose window is open.\<close>

lemma rateLimit_table:
  assumes "cls ip = Some cl" "now \<le> reset cl"
    and "state_of (rateLimit env n now c cls) = (b, c', cls')"
  shows "cls' ip = Some (if Context_IP c = ip \<and> requests cl < n
                         then cl\<lparr>requests := requests cl + 1\<rparr> else cl) \<and>
         (Context_IP c = ip \<longrightarrow> b = (requests cl < n))"
proof -
  from assms(1,2) have live: "cleanUp now cls ip = Some cl" by (rule cleanUp_live)
  show ?thesis
  proof (cases "Context_IP c = ip")
    case True
    with assms(1,2) have e: "entryAt now cls (Context_IP c) = cl" by (simp add: entryAt_live)
    show ?thesis
    proof (cases "requests cl < n")
      case True
      with e have "requests (entryAt now cls (Context_IP c)) < n" by simp
      from rateLimit_pass[OF this, of env] assms(3) e True \<open>Context_IP c = ip\<close>
      show ?thesis by auto
    next
      case False
      with e have "n \<le> requests (entryAt now cls (Context_IP c))" by simp
      from rateLimit_refuse[OF this, of env] obtain c'' where
        "rateLimit env n now c cls =
          Returns (False, c'', (cleanUp now cls)(Context_IP c \<mapsto> entryAt now cls (Context_IP c)))"
        by blast
      with assms(3) e False \<open>Context_IP c = ip\<close> show ?thesis by auto
    qed
  next
    case False
    show ?thesis
    proof (cases "requests (entryAt now cls (Context_IP c)) < n")
      case True
      from rateLimit_pass[OF this, of env] assms(3) live False
      show ?thesis by auto
    next
      case f: False
      then have "n \<le> requests (entryAt now cls (Context_IP c))" by simp
      from rateLimit_refuse[OF this, of env] obtain c'' where
        "rateLimit env n now c cls =
          Returns (False, c'', (cleanUp now cls)(Context_IP c \<mapsto> entryAt now cls (Context_IP c)))"
        by blast
      with assms(3) live False show ?thesis by auto
    qed
  qed
qed

lemma rateLimit_step:
  assumes "cls ip = Some cl" "now \<le> reset cl" "Context_IP c = ip"
    and "state_of (rateLimit env n now c cls) = (b, c', cls')"
  shows "b = (requests cl < n) \<and>
         (b \<longrightarrow> limitHeaders c' n (n - (requests cl + 1)) (reset cl))"
proof -
  from assms(1,2,3) have e: "entryAt now cls (Context_IP c) = cl" by (simp add: entryAt_live)
  show ?thesis
  proof (cases "requests cl < n")
    case True
    with e have "requests (entryAt now cls (Context_IP c)) < n" by simp
    from rateLimit_pass[OF this, of env] assms(4) e
    have "b" and "c' = Context_Header
         (Context_Header (Context_Header c ''X-RateLimit-Limit'' (Itoa n))
            ''X-RateLimit-Remaining'' (Itoa (n - (requests cl + 1))))
         ''X-RateLimit-Reset'' (Itoa (Unix (reset cl)))"
      by simp_all
    with True show ?thesis by (simp add: limitHeaders_def passed_headers)
  next
    case False
    with e have "n \<le> requests (entryAt now cls (Context_IP c))" by simp
    from rateLimit_refuse[OF this, of env] obtain c'' where
      "rateLimit env n now c cls =
        Returns (False, c'', (cleanUp now cls)(Context_IP c \<mapsto> entryAt now cls (Context_IP c)))"
      by blast
    with assms(4) False show ?thesis by auto
  qed
qed

lemma limitAll_length: "length (fst (limitAll env n reqs cls)) = length reqs"
proof (induction reqs arbitrary: cls)
  case Nil
  then show ?case by simp
next
  case (Cons x reqs)
  obtain now c where x: "x = (now, c)" by (cases x)
  obtain b c' cls' where st: "state_of (rateLimit env n now c cls) = (b, c', cls')"
    by (cases "state_of (rateLimit env n now c cls)") auto
  obtain bs cls'' where rest: "limitAll env n reqs cls' = (bs, cls'')"
    by (cases "limitAll env n reqs cls'") auto
  from Cons.IH[of cls'] rest have "length bs = length reqs" by simp
  with x st rest show ?case by simp
qed

lemma limitAll_window:
  assumes "cls ip = Some cl" "\<forall>x \<in> set reqs. fst x \<le> reset cl"
    and "j < length reqs" "Context_IP (snd (reqs ! j)) = ip"
  shows "fst (fst (limitAll env n reqs cls) ! j) =
           (requests cl + int (length (fromAddress ip (take j reqs))) < n) \<and>
         (fst (fst (limitAll env n reqs cls) ! j) \<longrightarrow>
            limitHeaders (snd (fst (limitAll env n reqs cls) ! j)) n
              (n - (requests cl + int (length (fromAddress ip (take j reqs))) + 1)) (reset cl))"
  using assms
proof (induction reqs arbitrary: cls cl j)
  case Nil
  then show ?case by simp
next
  case (Cons x reqs)
  obtain now c where x: "x = (now, c)" by (cases x)
  obtain b c' cls' where st: "state_of (rateLimit env n now c cls) = (b, c', cls')"
    by (cases "state_of (rateLimit env n now c cls)") auto
  obtain bs cls'' where rest: "limitAll env n reqs cls' = (bs, cls'')"
    by (cases "limitAll env n reqs cls'") auto
  from x st rest have all: "fst (limitAll env n (x # reqs) cls) = (b, c') # bs" by simp
  from Cons.prems(2) x have now: "now \<le> reset cl" by simp
  define cl' where "cl' = (if Context_IP c = ip \<and> requests cl < n
                         then cl\<lparr>requests := requests cl + 1\<rparr> else cl)"
  from rateLimit_table[OF Cons.prems(1) now st]
  have tab: "cls' ip = Some cl'" by (simp add: cl'_def)
  have rs: "reset cl' = reset cl" by (simp add: cl'_def)
  show ?case
  proof (cases j)
    case 0
    with Cons.prems(4) x have ip: "Context_IP c = ip" by simp
    from rateLimit_step[OF Cons.prems(1) now ip st] 0 all show ?thesis
      by (simp add: fromAddress_def)
  next
    case (Suc j')
    from Cons.prems(2) rs have w: "\<forall>y \<in> set reqs. fst y \<le> reset cl'" by simp
    from Cons.prems(3,4) Suc have j': "j' < length reqs" "Context_IP (snd (reqs ! j')) = ip"
      by simp_all
    let ?m = "int (length (fromAddress ip (take j' reqs)))"
    let ?m' = "int (length (fromAddress ip (take (Suc j') (x # reqs))))"
    from Cons.IH[of cls' cl' j', OF tab w j'] rest
    have ih: "fst (bs ! j') = (requests cl' + ?m < n)"
      "fst (bs ! j') \<longrightarrow> limitHeaders (snd (bs ! j')) n (n - (requests cl' + ?m + 1)) (reset cl')"
      by simp_all
    have m': "?m' = (if Context_IP c = ip then 1 else 0) + ?m"
      by (simp add: fromAddress_def x)
    have cmp: "(requests cl' + ?m < n) = (requests cl + ?m' < n)"
      unfolding m' by (auto simp: cl'_def)
    have val: "requests cl' + ?m < n \<Longrightarrow> requests cl' + ?m = requests cl + ?m'"
      unfolding m' by (auto simp: cl'_def)
    from ih cmp val rs all Suc show ?thesis by auto
  qed
qed

lemma rateLimit_new:
  assumes "cleanUp now cls ip = None" "Context_IP c = ip"
    and "state_of (rateLimit env n now c cls) = (b, c', cls')"
  shows "b = (0 < n) \<and>
         cls' ip = Some \<lparr>requests = (if 0 < n then 1 else 0), reset = now + minute\<rparr> \<and>
         (b \<longrightarrow> limitHeaders c' n (n - 1) (now + minute))"
proof -
  from assms(1,2) have e: "entryAt now cls (Context_IP c) = \<lparr>requests = 0, reset = now + minute\<rparr>"
    by (simp add: entryAt_new)
  show ?thesis
  proof (cases "0 < n")
    case True
    with e have "requests (entryAt now cls (Context_IP c)) < n" by simp
    from rateLimit_pass[OF this, of env] assms(3) e
    have "b" and "c' = Context_Header
         (Context_Header (Context_Header c ''X-RateLimit-Limit'' (Itoa n))
            ''X-RateLimit-Remaining'' (Itoa (n - (0 + 1))))
         ''X-RateLimit-Reset'' (Itoa (Unix (now + minute)))"
      and "cls' = (cleanUp now cls)(Context_IP c \<mapsto> \<lparr>requests = 1, reset = now + minute\<rparr>)"
      by simp_all
    with True assms(2) show ?thesis by (simp add: limitHeaders_def passed_headers)
  next
    case False
    with e have "n \<le> requests (entryAt now cls (Context_IP c))" by simp
    from rateLimit_refuse[OF this, of env] obtain c'' where
      "rateLimit env n now c cls =
        Returns (False, c'', (cleanUp now cls)(Context_IP c \<mapsto> entryAt now cls (Context_IP c)))"
      by blast
    with assms(2,3) e False show ?thesis by auto
  qed
qed

lemma limitAll_new_window:
  assumes "cleanUp t0 cls ip = None" "Context_IP c0 = ip"
    and "\<forall>x \<in> set rest. fst x \<le> t0 + minute"
    and "j < length ((t0, c0) # rest)" "Context_IP (snd (((t0, c0) # rest) ! j)) = ip"
  shows "fst (fst (limitAll env n ((t0, c0) # rest) cls) ! j) =
           (int (length (fromAddress ip (take j ((t0, c0) # rest)))) < n) \<and>
         (fst (fst (limitAll env n ((t0, c0) # rest) cls) ! j) \<longrightarrow>
            limitHeaders (snd (fst (limitAll env n ((t0, c0) # rest) cls) ! j)) n
              (n - (int (length (fromAddress ip (take j ((t0, c0) # rest)))) + 1)) (t0 + minute))"
proof -
  obtain b c' cls' where st: "state_of (rateLimit env n t0 c0 cls) = (b, c', cls')"
    by (cases "state_of (rateLimit env n t0 c0 cls)") auto
  obtain bs cls'' where rest: "limitAll env n rest cls' = (bs, cls'')"
    by (cases "limitAll env n rest cls'") auto
  from st rest have all: "fst (limitAll env n ((t0, c0) # rest) cls) = (b, c') # bs" by simp
  define cl where "cl = \<lparr>requests = (if 0 < n then 1 else 0), reset = t0 + minute\<rparr>"
  from rateLimit_new[OF assms(1,2) st]
  have b: "b = (0 < n)" and tab: "cls' ip = Some cl"
    and h: "b \<longrightarrow> limitHeaders c' n (n - 1) (t0 + minute)"
    by (simp_all add: cl_def)
  show ?thesis
  proof (cases j)
    case 0
    with b h all show ?thesis by (simp add: fromAddress_def)
  next
    case (Suc j')
    from assms(3) have w: "\<forall>x \<in> set rest. fst x \<le> reset cl" by (simp add: cl_def)
    from assms(4,5) Suc have j': "j' < length rest" "Context_IP (snd (rest ! j')) = ip"
      by simp_all
    let ?m = "int (length (fromAddress ip (take j' rest)))"
    from limitAll_window[where cls = cls' and ip = ip and cl = cl and reqs = rest and j = j'
        and env = env and n = n, OF tab w j'] rest
    have r: "fst (bs ! j') = (requests cl + ?m < n)"
      "fst (bs ! j') \<longrightarrow> limitHeaders (snd (bs ! j')) n (n - (requests cl + ?m + 1)) (reset cl)"
      by simp_all
    have m: "int (length (fromAddress ip (take (Suc j') ((t0, c0) # rest)))) = 1 + ?m"
      using assms(2) by (simp add: fromAddress_def)
    have nn: "0 \<le> ?m" by simp
    have cmp: "(requests cl + ?m < n) = (1 + ?m < n)"
      using nn by (cases "0 < n") (simp_all add: cl_def)
    have val: "requests cl + ?m < n \<Longrightarrow> requests cl + ?m = 1 + ?m"
      using nn by (cases "0 < n") (simp_all add: cl_def)
    have rs: "reset cl = t0 + minute" by (simp add: cl_def)
    have nth: "fst (limitAll env n ((t0, c0) # rest) cls) ! Suc j' = bs ! j'"
      unfolding all by simp
    have p: "fst (bs ! j') = (1 + ?m < n)" using r(1) cmp by simp
    have q: "fst (bs ! j') \<longrightarrow> limitHeaders (snd (bs ! j')) n (n - (1 + ?m + 1)) (t0 + minute)"
    proof
      assume f: "fst (bs ! j')"
      with r(1) have "requests cl + ?m < n" by simp
      from val[OF this] r(2) f rs show "limitHeaders (snd (bs ! j')) n (n - (1 + ?m + 1)) (t0 + minute)"
        by simp
    qed
    from p q show ?thesis unfolding Suc nth m by (rule conjI)
  qed
qed

text \<open>
  The limiter by key.  One call of the limiter with the limit \<open>n\<close> at the time \<open>now\<close>
  is counted against the entry of the string that \<^verbatim>\<open>IP()\<close> returns: the entry of the
  table if its window has not ended, and a new entry with the counter 0 and a window of
  one minute from \<open>now\<close> otherwise.  If the counter is below \<open>n\<close>, the middleware
  returns true, counts the request and sets \<^verbatim>\<open>X-RateLimit-Limit\<close>,
  \<^verbatim>\<open>X-RateLimit-Remaining\<close> and \<^verbatim>\<open>X-RateLimit-Reset\<close> (Unix seconds) and nothing
  else.  If not, it returns false with the status code 429 in the context and changes no
  header other than \<^verbatim>\<open>Content-Type\<close>.  For a sequence of requests that begins with a
  request of the key \<open>ip\<close> for which no window is open and whose later requests all
  come before that window ends, a request of the key \<open>ip\<close> is let through exactly when
  fewer than \<open>n\<close> requests of that key came before it.
\<close>

lemma rateLimit_by_key:
  "(requests (entryAt now cls (Context_IP c)) < n \<longrightarrow>
      (\<exists>c'. rateLimit env n now c cls =
           Returns (True, c',
             (cleanUp now cls)(Context_IP c \<mapsto>
               (entryAt now cls (Context_IP c))
                 \<lparr>requests := requests (entryAt now cls (Context_IP c)) + 1\<rparr>)) \<and>
         limitHeaders c' n (n - (requests (entryAt now cls (Context_IP c)) + 1))
           (reset (entryAt now cls (Context_IP c))) \<and>
         written c' = written c \<and> statusCode c' = statusCode c \<and>
         body (Response c') = body (Response c) \<and>
         wroteHeader (Response c') = wroteHeader (Response c))) \<and>
   (n \<le> requests (entryAt now cls (Context_IP c)) \<longrightarrow>
      (\<exists>c'. rateLimit env n now c cls =
           Returns (False, c', (cleanUp now cls)(Context_IP c \<mapsto> entryAt now cls (Context_IP c))) \<and>
         statusCode c' = 429 \<and>
         (\<forall>k. CanonicalHeaderKey k \<noteq> ''Content-Type'' \<longrightarrow>
            Header_Get (Header_w (Response c')) k = Header_Get (Header_w (Response c)) k) \<and>
         (\<not> responseMode (Request c) \<longrightarrow> Response c' = Response c \<and> written c' = written c) \<and>
         (responseMode (Request c) \<longrightarrow>
            written c' \<and>
            (\<not> wroteHeader (Response c) \<longrightarrow>
               body (Response c') =
                 body (Response c) @ marshalMap env [(''error'', ''Rate limit exceeded'')] @ [10] \<and>
               status (Response c') = 429 \<and>
               sentHeader (Response c') =
                 Header_Set (Header_w (Response c)) ''Content-Type'' ''application/json'')))) \<and>
   (\<forall>cl. cls ip = Some cl \<and> now \<le> reset cl \<longrightarrow> entryAt now cls ip = cl) \<and>
   (cls ip = None \<or> (\<exists>cl. cls ip = Some cl \<and> reset cl < now) \<longrightarrow>
      entryAt now cls ip = \<lparr>requests = 0, reset = now + minute\<rparr>) \<and>
   ((cls ip = None \<or> (\<exists>cl. cls ip = Some cl \<and> reset cl < t0)) \<and> Context_IP c0 = ip \<and>
    (\<forall>x \<in> set rest. fst x \<le> t0 + minute) \<longrightarrow>
      (\<forall>j < length ((t0, c0) # rest). Context_IP (snd (((t0, c0) # rest) ! j)) = ip \<longrightarrow>
         fst (fst (limitAll env n ((t0, c0) # rest) cls) ! j) =
           (int (length (fromAddress ip (take j ((t0, c0) # rest)))) < n) \<and>
         (fst (fst (limitAll env n ((t0, c0) # rest) cls) ! j) \<longrightarrow>
            limitHeaders (snd (fst (limitAll env n ((t0, c0) # rest) cls) ! j)) n
              (n - (int (length (fromAddress ip (take j ((t0, c0) # rest)))) + 1)) (t0 + minute))))"
  (is "?A \<and> ?B \<and> ?C \<and> ?D \<and> ?E")
proof -
  have A: ?A
  proof
    assume h: "requests (entryAt now cls (Context_IP c)) < n"
    let ?c' = "Context_Header
         (Context_Header (Context_Header c ''X-RateLimit-Limit'' (Itoa n))
            ''X-RateLimit-Remaining'' (Itoa (n - (requests (entryAt now cls (Context_IP c)) + 1))))
         ''X-RateLimit-Reset'' (Itoa (Unix (reset (entryAt now cls (Context_IP c)))))"
    have "limitHeaders ?c' n (n - (requests (entryAt now cls (Context_IP c)) + 1))
           (reset (entryAt now cls (Context_IP c)))"
      by (simp add: limitHeaders_def passed_headers)
    moreover have "written ?c' = written c" "statusCode ?c' = statusCode c"
      "body (Response ?c') = body (Response c)"
      "wroteHeader (Response ?c') = wroteHeader (Response c)"
      by (simp_all add: Context_Header_def)
    ultimately show "\<exists>c'. rateLimit env n now c cls =
           Returns (True, c',
             (cleanUp now cls)(Context_IP c \<mapsto>
               (entryAt now cls (Context_IP c))
                 \<lparr>requests := requests (entryAt now cls (Context_IP c)) + 1\<rparr>)) \<and>
         limitHeaders c' n (n - (requests (entryAt now cls (Context_IP c)) + 1))
           (reset (entryAt now cls (Context_IP c))) \<and>
         written c' = written c \<and> statusCode c' = statusCode c \<and>
         body (Response c') = body (Response c) \<and>
         wroteHeader (Response c') = wroteHeader (Response c)"
      using rateLimit_pass[OF h, of env] by blast
  qed
  have B: ?B
  proof
    assume "n \<le> requests (entryAt now cls (Context_IP c))"
    from rateLimit_refuse[OF this, of env]
    show "\<exists>c'. rateLimit env n now c cls =
           Returns (False, c', (cleanUp now cls)(Context_IP c \<mapsto> entryAt now cls (Context_IP c))) \<and>
         statusCode c' = 429 \<and>
         (\<forall>k. CanonicalHeaderKey k \<noteq> ''Content-Type'' \<longrightarrow>
            Header_Get (Header_w (Response c')) k = Header_Get (Header_w (Response c)) k) \<and>
         (\<not> responseMode (Request c) \<longrightarrow> Response c' = Response c \<and> written c' = written c) \<and>
         (responseMode (Request c) \<longrightarrow>
            written c' \<and>
            (\<not> wroteHeader (Response c) \<longrightarrow>
               body (Response c') =
                 body (Response c) @ marshalMap env [(''error'', ''Rate limit exceeded'')] @ [10] \<and>
               status (Response c') = 429 \<and>
               sentHeader (Response c') =
                 Header_Set (Header_w (Response c)) ''Content-Type'' ''application/json''))"
      by blast
  qed
  have C: ?C by (simp add: entryAt_live)
  have D: ?D
  proof
    assume "cls ip = None \<or> (\<exists>cl. cls ip = Some cl \<and> reset cl < now)"
    then have "cleanUp now cls ip = None" by (simp only: cleanUp_None)
    then show "entryAt now cls ip = \<lparr>requests = 0, reset = now + minute\<rparr>"
      by (rule entryAt_new)
  qed
  have E: ?E
  proof (intro impI allI)
    fix j
    assume h: "(cls ip = None \<or> (\<exists>cl. cls ip = Some cl \<and> reset cl < t0)) \<and> Context_IP c0 = ip \<and>
      (\<forall>x \<in> set rest. fst x \<le> t0 + minute)"
    assume j: "j < length ((t0, c0) # rest)" "Context_IP (snd (((t0, c0) # rest) ! j)) = ip"
    from h have "cls ip = None \<or> (\<exists>cl. cls ip = Some cl \<and> reset cl < t0)" by (rule conjunct1)
    then have n: "cleanUp t0 cls ip = None" by (simp only: cleanUp_None)
    from h have ip: "Context_IP c0 = ip" and w: "\<forall>x \<in> set rest. fst x \<le> t0 + minute" by blast+
    from limitAll_new_window[OF n ip w j, of env n]
    show "fst (fst (limitAll env n ((t0, c0) # rest) cls) ! j) =
           (int (length (fromAddress ip (take j ((t0, c0) # rest)))) < n) \<and>
         (fst (fst (limitAll env n ((t0, c0) # rest) cls) ! j) \<longrightarrow>
            limitHeaders (snd (fst (limitAll env n ((t0, c0) # rest) cls) ! j)) n
              (n - (int (length (fromAddress ip (take j ((t0, c0) # rest)))) + 1)) (t0 + minute))" .
  qed
  from A B C D E show ?thesis by blast
qed

lemmas limit_eval =
  rateLimit_def cleanUp_def minute_def Unix_def Context_IP_def Context_Header_def
  Context_JSON_def Context_Status_def sendJSON_def beginResponse_def marshal_def
  WriteHeader_def Write_def bodyAllowedForStatus_def Header_Get_def Header_Set_def
  canonical_limit_keys exampleContext_eq exampleRequest_def exampleEnv_def
  newResponseWriter_def Let_def

text \<open>
  C4 fails on the code in two ways.  The limiter counts by the string that \<^verbatim>\<open>IP()\<close>
  returns, and for a request without forwarding headers that is \<^verbatim>\<open>RemoteAddr\<close>, the
  address with the port of the connection: with the limit 1, two requests of the client
  10.0.0.1 over two connections both pass, while the second of two requests over one
  connection is refused.  And the refusal answers through the dual-mode \<^verbatim>\<open>JSON\<close>: on
  a \<^verbatim>\<open>POST\<close> request with a body it decodes instead of sending, so the status code
  429 is set in the context and nothing is written.  On a \<^verbatim>\<open>GET\<close> request the 429 is
  written, and the only header of the response is \<^verbatim>\<open>Content-Type\<close>.
\<close>

theorem RateLimit_evaluated:
  "Context_IP (exampleContext ''GET'' ''/'' []) = ''10.0.0.1:4000'' \<and>
   Context_IP ((exampleContext ''GET'' ''/'' [])
       \<lparr>Request := (exampleRequest ''GET'' ''/'' [])\<lparr>RemoteAddr := ''10.0.0.1:4001''\<rparr>\<rparr>) =
     ''10.0.0.1:4001'' \<and>
   map fst (fst (limitAll exampleEnv 1
     [(100, exampleContext ''GET'' ''/'' []),
      (200, (exampleContext ''GET'' ''/'' [])
         \<lparr>Request := (exampleRequest ''GET'' ''/'' [])\<lparr>RemoteAddr := ''10.0.0.1:4001''\<rparr>\<rparr>)]
     Map.empty)) = [True, True] \<and>
   map fst (fst (limitAll exampleEnv 1
     [(100, exampleContext ''GET'' ''/'' []), (200, exampleContext ''GET'' ''/'' [])]
     Map.empty)) = [True, False] \<and>
   rateLimit exampleEnv 1 200 (exampleContext ''POST'' ''/'' [1, 2, 3])
       [''10.0.0.1:4000'' \<mapsto> \<lparr>requests = 1, reset = 100 + minute\<rparr>] =
     Returns (False,
       (exampleContext ''POST'' ''/'' [1, 2, 3])
         \<lparr>Request := (exampleRequest ''POST'' ''/'' [1, 2, 3])\<lparr>Body := []\<rparr>, statusCode := 429\<rparr>,
       [''10.0.0.1:4000'' \<mapsto> \<lparr>requests = 1, reset = 100 + minute\<rparr>]) \<and>
   rateLimit exampleEnv 1 200 (exampleContext ''GET'' ''/'' [])
       [''10.0.0.1:4000'' \<mapsto> \<lparr>requests = 1, reset = 100 + minute\<rparr>] =
     Returns (False,
       (exampleContext ''GET'' ''/'' [])
         \<lparr>Response := \<lparr>Header_w = [''Content-Type'' \<mapsto> [''application/json'']], wroteHeader = True,
                        status = 429,
                        sentHeader = [''Content-Type'' \<mapsto> [''application/json'']],
                        informational = [],
                        body = bytes_of ''error:Rate limit exceeded'' @ [10]\<rparr>,
          written := True, statusCode := 429\<rparr>,
       [''10.0.0.1:4000'' \<mapsto> \<lparr>requests = 1, reset = 100 + minute\<rparr>])"
proof -
  let ?a = "exampleContext ''GET'' ''/'' []"
  let ?b = "(exampleContext ''GET'' ''/'' [])
       \<lparr>Request := (exampleRequest ''GET'' ''/'' [])\<lparr>RemoteAddr := ''10.0.0.1:4001''\<rparr>\<rparr>"
  let ?p = "exampleContext ''POST'' ''/'' [1, 2, 3]"
  let ?tab = "[''10.0.0.1:4000'' \<mapsto> \<lparr>requests = 1, reset = 100 + minute\<rparr>]"
  have ia: "Context_IP ?a = ''10.0.0.1:4000''"
    by (simp add: exampleContext_eq Context_IP_def exampleRequest_def Header_Get_def)
  have ib: "Context_IP ?b = ''10.0.0.1:4001''"
    by (simp add: exampleContext_eq Context_IP_def exampleRequest_def Header_Get_def)
  have ip: "Context_IP ?p = ''10.0.0.1:4000''"
    by (simp add: exampleContext_eq Context_IP_def exampleRequest_def Header_Get_def)
  have keep: "cleanUp 200 ?tab = ?tab" by (auto simp: cleanUp_def minute_def fun_eq_iff)
  have two: "map fst (fst (limitAll exampleEnv 1 [(100, ?a), (200, ?b)] Map.empty)) = [True, True]"
    by (simp add: limit_eval)
  have one: "map fst (fst (limitAll exampleEnv 1 [(100, ?a), (200, ?a)] Map.empty)) = [True, False]"
    by (simp add: limit_eval)
  have jp: "Context_JSON exampleEnv (Context_Status ?p 429)
        (StringMap [(''error'', ''Rate limit exceeded'')]) =
     Returns (Some DecodeError, StringMap [(''error'', ''Rate limit exceeded'')],
       ?p\<lparr>Request := (exampleRequest ''POST'' ''/'' [1, 2, 3])\<lparr>Body := []\<rparr>, statusCode := 429\<rparr>)"
    unfolding exampleContext_eq
    by (simp add: Context_JSON_def Context_Status_def exampleRequest_def exampleEnv_def Let_def)
  have post: "rateLimit exampleEnv 1 200 ?p ?tab =
     Returns (False,
       ?p\<lparr>Request := (exampleRequest ''POST'' ''/'' [1, 2, 3])\<lparr>Body := []\<rparr>, statusCode := 429\<rparr>, ?tab)"
    unfolding rateLimit_def Let_def keep ip jp by simp
  have jg: "Context_JSON exampleEnv (Context_Status ?a 429)
        (StringMap [(''error'', ''Rate limit exceeded'')]) =
     Returns (None, StringMap [(''error'', ''Rate limit exceeded'')], ?a
         \<lparr>Response := \<lparr>Header_w = [''Content-Type'' \<mapsto> [''application/json'']], wroteHeader = True,
                        status = 429,
                        sentHeader = [''Content-Type'' \<mapsto> [''application/json'']],
                        informational = [],
                        body = bytes_of ''error:Rate limit exceeded'' @ [10]\<rparr>,
          written := True, statusCode := 429\<rparr>)"
    unfolding exampleContext_eq
    by (simp add: Context_JSON_def Context_Status_def responseMode_def exampleRequest_def
        sendJSON_def beginResponse_def WriteHeader_def marshal_def exampleEnv_def Write_def Let_def
        bodyAllowedForStatus_def newResponseWriter_def Header_Set_def canonical_limit_keys)
  have get: "rateLimit exampleEnv 1 200 ?a ?tab =
     Returns (False, ?a
         \<lparr>Response := \<lparr>Header_w = [''Content-Type'' \<mapsto> [''application/json'']], wroteHeader = True,
                        status = 429,
                        sentHeader = [''Content-Type'' \<mapsto> [''application/json'']],
                        informational = [],
                        body = bytes_of ''error:Rate limit exceeded'' @ [10]\<rparr>,
          written := True, statusCode := 429\<rparr>, ?tab)"
    unfolding rateLimit_def Let_def keep ia jg by simp
  from ia ib two one post get show ?thesis by simp
qed
end
